theory Spec2Isabelle
  imports Complex_Main
begin

section \<open>Python values met by the Bambu Lab MQTT client\<close>

text \<open>
  The client of \<^verbatim>\<open>spoolman/integrations/bambu_mqtt.py\<close> walks a decoded JSON document
  by duck typing, so the embedding keeps the whole value space of \<^verbatim>\<open>json.loads\<close> and
  writes out what every Python operation used by the client does on each kind of value,
  including the exception it raises.

  \<open>JObj\<close> holds the items of a dict in their order; a key is looked up with \<open>map_of\<close>,
  so a list with distinct keys stands for the dict with these items. \<open>JInt\<close> and
  \<open>JFloat\<close> are the two kinds of number that \<^verbatim>\<open>json.loads\<close> returns.

  A Python float is either a finite number, an infinity or NaN. The three special values
  are kept because comparisons with NaN are false, which changes the control flow of the
  change filter. Arithmetic on finite values is taken over the reals: rounding to 53 bits
  and overflow of a finite result to an infinity are not represented.
\<close>

datatype pyfloat = Finite real | PInf | NInf | NaN

datatype json =
    JNull
  | JBool bool
  | JInt int
  | JFloat pyfloat
  | JStr string
  | JArr "json list"
  | JObj "(string \<times> json) list"

datatype exn =
    TypeError
  | ValueError
  | OverflowError
  | KeyError
  | AttributeError
  | JSONDecodeError
  | OtherError

text \<open>Float subtraction \<^verbatim>\<open>a - b\<close>.\<close>

fun fsub :: "pyfloat \<Rightarrow> pyfloat \<Rightarrow> pyfloat" where
  "fsub NaN b = NaN"
| "fsub (Finite a) NaN = NaN"
| "fsub PInf NaN = NaN"
| "fsub NInf NaN = NaN"
| "fsub (Finite a) (Finite b) = Finite (a - b)"
| "fsub (Finite a) PInf = NInf"
| "fsub (Finite a) NInf = PInf"
| "fsub PInf PInf = NaN"
| "fsub PInf (Finite b) = PInf"
| "fsub PInf NInf = PInf"
| "fsub NInf NInf = NaN"
| "fsub NInf (Finite b) = NInf"
| "fsub NInf PInf = NInf"

text \<open>The builtin \<^verbatim>\<open>abs\<close> on a float.\<close>

fun fabs :: "pyfloat \<Rightarrow> pyfloat" where
  "fabs (Finite a) = Finite \<bar>a\<bar>"
| "fabs PInf = PInf"
| "fabs NInf = PInf"
| "fabs NaN = NaN"

text \<open>Float comparison \<^verbatim>\<open>a < b\<close>: false as soon as one side is NaN.\<close>

fun flt :: "pyfloat \<Rightarrow> pyfloat \<Rightarrow> bool" where
  "flt NaN b = False"
| "flt (Finite a) NaN = False"
| "flt PInf NaN = False"
| "flt NInf NaN = False"
| "flt (Finite a) (Finite b) = (a < b)"
| "flt (Finite a) PInf = True"
| "flt (Finite a) NInf = False"
| "flt PInf b = False"
| "flt NInf NInf = False"
| "flt NInf (Finite b) = True"
| "flt NInf PInf = True"


text \<open>Float division \<^verbatim>\<open>a / c\<close> by a positive finite constant (the source divides by
  \<^verbatim>\<open>100.0\<close> only, so \<^verbatim>\<open>ZeroDivisionError\<close> cannot arise).\<close>

fun fdiv_pos :: "pyfloat \<Rightarrow> real \<Rightarrow> pyfloat" where
  "fdiv_pos (Finite a) c = Finite (a / c)"
| "fdiv_pos PInf c = PInf"
| "fdiv_pos NInf c = NInf"
| "fdiv_pos NaN c = NaN"

text \<open>Float multiplication \<^verbatim>\<open>a * b\<close>.\<close>

definition inf_times :: "bool \<Rightarrow> real \<Rightarrow> pyfloat" where
  "inf_times positive a =
     (if a = 0 then NaN else if (0 < a) = positive then PInf else NInf)"

fun fmul :: "pyfloat \<Rightarrow> pyfloat \<Rightarrow> pyfloat" where
  "fmul NaN b = NaN"
| "fmul (Finite a) NaN = NaN"
| "fmul PInf NaN = NaN"
| "fmul NInf NaN = NaN"
| "fmul (Finite a) (Finite b) = Finite (a * b)"
| "fmul (Finite a) PInf = inf_times True a"
| "fmul (Finite a) NInf = inf_times False a"
| "fmul PInf (Finite b) = inf_times True b"
| "fmul NInf (Finite b) = inf_times False b"
| "fmul PInf PInf = PInf"
| "fmul PInf NInf = NInf"
| "fmul NInf PInf = NInf"
| "fmul NInf NInf = PInf"

subsection \<open>Library calls taken as parameters\<close>

text \<open>
  What the client calls but does not define is a parameter of the model:
  \<^item> \<open>payload_decode\<close> is \<^verbatim>\<open>message.payload.decode()\<close>, \<open>Inl\<close> the exception raised;
  \<^item> \<open>json_loads\<close> is \<^verbatim>\<open>json.loads\<close>, with \<open>Inl JSONDecodeError\<close> for text that is
    not JSON and another \<open>Inl\<close> for any other exception of the parser;
  \<^item> \<open>float_of_str\<close> is \<^verbatim>\<open>float\<close> on a string, \<open>None\<close> where it raises ValueError;
  \<^item> \<open>repr_of\<close> is \<^verbatim>\<open>str\<close> on a float, a list or a dict;
  \<^item> \<open>spool_update\<close> is \<^verbatim>\<open>spool_db.update(db, spool_id, {"remaining_weight": w})\<close>
    on the store \<open>'db\<close>: the flag is False where the call raises, and the store it leaves
    behind is returned in both cases.
\<close>

record ('m, 'db) lib =
  payload_decode :: "'m \<Rightarrow> exn + string"
  json_loads :: "string \<Rightarrow> exn + json"
  float_of_str :: "string \<Rightarrow> pyfloat option"
  repr_of :: "json \<Rightarrow> string"
  spool_update :: "'db \<Rightarrow> int \<Rightarrow> pyfloat \<Rightarrow> bool \<times> 'db"

subsection \<open>Builtins on JSON values\<close>

fun str_nat :: "nat \<Rightarrow> string" where
  "str_nat n =
     (if n < 10 then [''0123456789'' ! n]
      else str_nat (n div 10) @ [''0123456789'' ! (n mod 10)])"

declare str_nat.simps [simp del]

definition str_int :: "int \<Rightarrow> string" where
  "str_int i = (if i < 0 then CHR ''-'' # str_nat (nat (- i)) else str_nat (nat i))"

text \<open>The builtin \<^verbatim>\<open>str\<close>.\<close>

definition py_str :: "('m, 'db) lib \<Rightarrow> json \<Rightarrow> string" where
  "py_str L v =
     (case v of
        JStr s \<Rightarrow> s
      | JInt i \<Rightarrow> str_int i
      | JBool b \<Rightarrow> (if b then ''True'' else ''False'')
      | JNull \<Rightarrow> ''None''
      | _ \<Rightarrow> repr_of L v)"

text \<open>
  The builtin \<^verbatim>\<open>float\<close>. A bool is an int in Python; an int that rounds to
  \<open>2 ^ 1024\<close> or beyond raises OverflowError; \<^verbatim>\<open>None\<close>, lists and dicts raise TypeError;
  a string that does not parse raises ValueError.
\<close>

definition py_float :: "('m, 'db) lib \<Rightarrow> json \<Rightarrow> exn + pyfloat" where
  "py_float L v =
     (case v of
        JNull \<Rightarrow> Inl TypeError
      | JBool b \<Rightarrow> Inr (Finite (if b then 1 else 0))
      | JInt i \<Rightarrow>
          (if \<bar>i\<bar> < 2 ^ 1024 - 2 ^ 970 then Inr (Finite (of_int i)) else Inl OverflowError)
      | JFloat x \<Rightarrow> Inr x
      | JStr s \<Rightarrow> (case float_of_str L s of None \<Rightarrow> Inl ValueError | Some x \<Rightarrow> Inr x)
      | JArr xs \<Rightarrow> Inl TypeError
      | JObj kv \<Rightarrow> Inl TypeError)"

text \<open>Truth value of an object, as tested by \<^verbatim>\<open>if ams_data:\<close>.\<close>

definition py_truthy :: "json \<Rightarrow> bool" where
  "py_truthy v =
     (case v of
        JNull \<Rightarrow> False
      | JBool b \<Rightarrow> b
      | JInt i \<Rightarrow> i \<noteq> 0
      | JFloat x \<Rightarrow> x \<noteq> Finite 0
      | JStr s \<Rightarrow> s \<noteq> []
      | JArr xs \<Rightarrow> xs \<noteq> []
      | JObj kv \<Rightarrow> kv \<noteq> [])"

text \<open>What a \<^verbatim>\<open>for\<close> loop iterates over: the elements of a list, the characters of a
  string, the keys of a dict; anything else raises TypeError.\<close>

definition py_iter :: "json \<Rightarrow> exn + json list" where
  "py_iter v =
     (case v of
        JArr xs \<Rightarrow> Inr xs
      | JStr s \<Rightarrow> Inr (map (\<lambda>c. JStr [c]) s)
      | JObj kv \<Rightarrow> Inr (map (\<lambda>p. JStr (fst p)) kv)
      | _ \<Rightarrow> Inl TypeError)"

fun starts_with :: "string \<Rightarrow> string \<Rightarrow> bool" where
  "starts_with s [] = True"
| "starts_with [] (p # ps) = False"
| "starts_with (c # cs) (p # ps) = (c = p \<and> starts_with cs ps)"

fun is_substr :: "string \<Rightarrow> string \<Rightarrow> bool" where
  "is_substr sub [] = (sub = [])"
| "is_substr sub (c # cs) = (starts_with (c # cs) sub \<or> is_substr sub cs)"

text \<open>The test \<^verbatim>\<open>key in v\<close> for a string \<^verbatim>\<open>key\<close>: a key of a dict, an element of a
  list, a substring of a string; anything else raises TypeError.\<close>

definition py_contains :: "string \<Rightarrow> json \<Rightarrow> exn + bool" where
  "py_contains key v =
     (case v of
        JObj kv \<Rightarrow> Inr (map_of kv key \<noteq> None)
      | JArr xs \<Rightarrow> Inr (JStr key \<in> set xs)
      | JStr s \<Rightarrow> Inr (is_substr key s)
      | _ \<Rightarrow> Inl TypeError)"

text \<open>The subscript \<^verbatim>\<open>v[key]\<close> for a string \<^verbatim>\<open>key\<close>.\<close>

definition py_getitem :: "json \<Rightarrow> string \<Rightarrow> exn + json" where
  "py_getitem v key =
     (case v of
        JObj kv \<Rightarrow> (case map_of kv key of None \<Rightarrow> Inl KeyError | Some x \<Rightarrow> Inr x)
      | _ \<Rightarrow> Inl TypeError)"

text \<open>The method \<^verbatim>\<open>d.get(key, default)\<close> of a dict, as a lookup in its items.\<close>

definition dict_get :: "(string \<times> json) list \<Rightarrow> string \<Rightarrow> json \<Rightarrow> json" where
  "dict_get kv key dflt = (case map_of kv key of None \<Rightarrow> dflt | Some x \<Rightarrow> x)"

text \<open>The call \<^verbatim>\<open>v.get(key, default)\<close> on any value: only a dict has the method.\<close>

definition py_get :: "json \<Rightarrow> string \<Rightarrow> json \<Rightarrow> exn + json" where
  "py_get v key dflt =
     (case v of
        JObj kv \<Rightarrow> Inr (dict_get kv key dflt)
      | _ \<Rightarrow> Inl AttributeError)"

section \<open>The client and what it emits\<close>

text \<open>
  The fields of \<^verbatim>\<open>BambuMQTTClient\<close> that the processing pipeline and the reconnect loop
  read or write. The broker parameters (host, port, credentials, device serial, TLS flag)
  are only handed to the transport and are left out. \<open>client\<close> tells whether
  \<^verbatim>\<open>self.client\<close> holds a client object; \<open>last_remaining\<close> is \<^verbatim>\<open>self._last_remaining\<close>.
\<close>

record bambu =
  ams_mappings :: "string \<rightharpoonup> int"
  client :: bool
  running :: bool
  last_remaining :: "string \<rightharpoonup> pyfloat"

text \<open>\<^verbatim>\<open>BambuMQTTClient.__init__\<close>.\<close>

definition init :: "(string \<rightharpoonup> int) \<Rightarrow> bambu" where
  "init mappings =
     \<lparr>ams_mappings = mappings, client = False, running = False, last_remaining = Map.empty\<rparr>"

text \<open>
  Everything observable is recorded as a list of events, in the order of execution: a log
  line with its level (\<^verbatim>\<open>logger.exception\<close> logs at level Error), a call of
  \<^verbatim>\<open>spool_db.update\<close>, the opening of a broker connection (\<^verbatim>\<open>aiomqtt.Client(...)\<close>), the
  opening of a database session for one message (\<^verbatim>\<open>db_session_factory()\<close>), and a backoff
  sleep (\<^verbatim>\<open>asyncio.sleep\<close>) with its delay.
  \<open>Db_update slot spool w\<close> is the call \<^verbatim>\<open>spool_db.update\<close> for spool \<open>spool\<close> with weight
  \<open>w\<close>; the call itself carries no slot, the event also names the slot whose record
  caused it.
\<close>

datatype level = Info | Warning | Error

datatype message =
    Invalid_remain string json
  | No_tray_weight string
  | Invalid_tray_weight string json
  | Slot_remaining string int pyfloat pyfloat
  | Updated_spool int pyfloat
  | Failed_update int
  | Json_decode_failed
  | Processing_error
  | Connected
  | Subscribed
  | Connection_error
  | Unexpected_error
  | Reconnecting int
  | Stopping
  | Stopped

datatype event =
    Log level message
  | Db_update string int pyfloat
  | Open_client
  | Open_session
  | Sleep int

type_synonym 'db outcome = "exn option \<times> bambu \<times> 'db \<times> event list"

section \<open>Processing AMS data\<close>

text \<open>
  Lines 154 to 190 of \<^verbatim>\<open>_process_ams_data\<close>, reached once the percentage of a mapped
  tray has passed the change filter: the percentage is stored as the slot's last known
  value, then the total weight is read and coerced, the remaining weight computed and the
  spool updated. The first component of the result is the exception that leaves the
  method, if any: the handler around \<^verbatim>\<open>float\<close> catches ValueError and TypeError only, so
  OverflowError escapes, while every exception of \<^verbatim>\<open>spool_db.update\<close> is caught.
\<close>

definition store_and_update ::
  "('m, 'db) lib \<Rightarrow> bambu \<Rightarrow> 'db \<Rightarrow> (string \<times> json) list \<Rightarrow> string \<Rightarrow> int \<Rightarrow> pyfloat
     \<Rightarrow> 'db outcome" where
  "store_and_update L self db kv tray_id spool_id remain_percent =
     (let self' = self\<lparr>last_remaining := (last_remaining self)(tray_id \<mapsto> remain_percent)\<rparr>;
          tray_weight = dict_get kv ''tray_weight'' JNull
      in
        if tray_weight = JNull
        then (None, self', db, [Log Warning (No_tray_weight tray_id)])
        else
          case py_float L tray_weight of
            Inl e \<Rightarrow>
              (if e = ValueError \<or> e = TypeError
               then (None, self', db, [Log Warning (Invalid_tray_weight tray_id tray_weight)])
               else (Some e, self', db, []))
          | Inr w \<Rightarrow>
              (let remaining_weight = fmul (fdiv_pos remain_percent 100) w in
               case spool_update L db spool_id remaining_weight of
                 (True, db') \<Rightarrow>
                   (None, self', db',
                    [Log Info (Slot_remaining tray_id spool_id remain_percent remaining_weight),
                     Db_update tray_id spool_id remaining_weight,
                     Log Info (Updated_spool spool_id remaining_weight)])
               | (False, db') \<Rightarrow>
                   (None, self', db',
                    [Log Info (Slot_remaining tray_id spool_id remain_percent remaining_weight),
                     Db_update tray_id spool_id remaining_weight,
                     Log Error (Failed_update spool_id)])))"

text \<open>
  The test of line 150: a prior value exists for the slot and the new percentage is
  within 0.5 of it.
\<close>

definition no_significant_change :: "pyfloat option \<Rightarrow> pyfloat \<Rightarrow> bool" where
  "no_significant_change last_remain remain_percent =
     (case last_remain of
        None \<Rightarrow> False
      | Some l \<Rightarrow> flt (fabs (fsub remain_percent l)) (Finite (1 / 2)))"

text \<open>
  The body of the inner loop of \<^verbatim>\<open>_process_ams_data\<close> (lines 123 to 190) for one element
  \<open>tray\<close> of a tray list.
\<close>

definition process_tray :: "('m, 'db) lib \<Rightarrow> bambu \<Rightarrow> 'db \<Rightarrow> json \<Rightarrow> 'db outcome" where
  "process_tray L self db tray =
     (case tray of
        JObj kv \<Rightarrow>
          (let tray_id = py_str L (dict_get kv ''id'' (JStr [])) in
           case ams_mappings self tray_id of
             None \<Rightarrow> (None, self, db, [])
           | Some spool_id \<Rightarrow>
               (let remain = dict_get kv ''remain'' JNull in
                if remain = JNull then (None, self, db, [])
                else
                  case py_float L remain of
                    Inl e \<Rightarrow>
                      (if e = ValueError \<or> e = TypeError
                       then (None, self, db, [Log Warning (Invalid_remain tray_id remain)])
                       else (Some e, self, db, []))
                  | Inr remain_percent \<Rightarrow>
                      (if no_significant_change (last_remaining self tray_id) remain_percent
                       then (None, self, db, [])
                       else store_and_update L self db kv tray_id spool_id remain_percent)))
      | _ \<Rightarrow> (None, self, db, []))"

text \<open>The loop \<^verbatim>\<open>for tray in ams_unit["tray"]\<close>: an exception ends it, and what the
  earlier trays did stays done.\<close>

fun process_trays :: "('m, 'db) lib \<Rightarrow> bambu \<Rightarrow> 'db \<Rightarrow> json list \<Rightarrow> 'db outcome" where
  "process_trays L self db [] = (None, self, db, [])"
| "process_trays L self db (tray # trays) =
     (case process_tray L self db tray of
        (Some e, self', db', evs) \<Rightarrow> (Some e, self', db', evs)
      | (None, self', db', evs) \<Rightarrow>
          (case process_trays L self' db' trays of
             (r, self'', db'', evs') \<Rightarrow> (r, self'', db'', evs @ evs')))"

text \<open>The body of the outer loop (lines 118 to 190) for one element \<open>ams_unit\<close>.\<close>

definition process_unit :: "('m, 'db) lib \<Rightarrow> bambu \<Rightarrow> 'db \<Rightarrow> json \<Rightarrow> 'db outcome" where
  "process_unit L self db ams_unit =
     (case py_contains ''tray'' ams_unit of
        Inl e \<Rightarrow> (Some e, self, db, [])
      | Inr False \<Rightarrow> (None, self, db, [])
      | Inr True \<Rightarrow>
          (case py_getitem ams_unit ''tray'' of
             Inl e \<Rightarrow> (Some e, self, db, [])
           | Inr trays \<Rightarrow>
               (case py_iter trays of
                  Inl e \<Rightarrow> (Some e, self, db, [])
                | Inr ts \<Rightarrow> process_trays L self db ts)))"

fun process_units :: "('m, 'db) lib \<Rightarrow> bambu \<Rightarrow> 'db \<Rightarrow> json list \<Rightarrow> 'db outcome" where
  "process_units L self db [] = (None, self, db, [])"
| "process_units L self db (u # us) =
     (case process_unit L self db u of
        (Some e, self', db', evs) \<Rightarrow> (Some e, self', db', evs)
      | (None, self', db', evs) \<Rightarrow>
          (case process_units L self' db' us of
             (r, self'', db'', evs') \<Rightarrow> (r, self'', db'', evs @ evs')))"

text \<open>\<^verbatim>\<open>BambuMQTTClient._process_ams_data\<close>.\<close>

definition process_ams_data :: "('m, 'db) lib \<Rightarrow> bambu \<Rightarrow> 'db \<Rightarrow> json \<Rightarrow> 'db outcome" where
  "process_ams_data L self db ams_data =
     (if \<not> py_truthy ams_data then (None, self, db, [])
      else
        case py_iter ams_data of
          Inl e \<Rightarrow> (Some e, self, db, [])
        | Inr units \<Rightarrow> process_units L self db units)"

text \<open>
  \<^verbatim>\<open>BambuMQTTClient._process_message\<close>. No exception leaves it: a JSONDecodeError is logged
  as a warning, and any other exception, from decoding, from walking the payload or from
  \<^verbatim>\<open>_process_ams_data\<close>, is logged by \<^verbatim>\<open>logger.exception\<close>.
\<close>

definition walk_payload :: "('m, 'db) lib \<Rightarrow> bambu \<Rightarrow> 'db \<Rightarrow> json \<Rightarrow> 'db outcome" where
  "walk_payload L self db payload =
     (case py_contains ''print'' payload of
        Inl e \<Rightarrow> (Some e, self, db, [])
      | Inr False \<Rightarrow> (None, self, db, [])
      | Inr True \<Rightarrow>
          (case py_getitem payload ''print'' of
             Inl e \<Rightarrow> (Some e, self, db, [])
           | Inr print_data \<Rightarrow>
               (case py_get print_data ''ams'' (JObj []) of
                  Inl e \<Rightarrow> (Some e, self, db, [])
                | Inr ams \<Rightarrow>
                    (case py_get ams ''ams'' (JArr []) of
                       Inl e \<Rightarrow> (Some e, self, db, [])
                     | Inr ams_data \<Rightarrow>
                         (if py_truthy ams_data then process_ams_data L self db ams_data
                          else (None, self, db, []))))))"

definition process_message ::
  "('m, 'db) lib \<Rightarrow> bambu \<Rightarrow> 'db \<Rightarrow> 'm \<Rightarrow> bambu \<times> 'db \<times> event list" where
  "process_message L self db message =
     (case payload_decode L message of
        Inl e \<Rightarrow> (self, db, [Log Error Processing_error])
      | Inr text \<Rightarrow>
          (case json_loads L text of
             Inl e \<Rightarrow>
               (if e = JSONDecodeError then (self, db, [Log Warning Json_decode_failed])
                else (self, db, [Log Error Processing_error]))
           | Inr payload \<Rightarrow>
               (case walk_payload L self db payload of
                  (None, self', db', evs) \<Rightarrow> (self', db', evs)
                | (Some e, self', db', evs) \<Rightarrow>
                    (self', db', evs @ [Log Error Processing_error]))))"

section \<open>The reconnect loop\<close>

text \<open>
  \<^verbatim>\<open>BambuMQTTClient.run\<close> is one sequential task that gives up control only where it
  awaits: opening the connection, subscribing, waiting for the next message, and sleeping
  before a reconnect. The model is a machine whose state says at which of these points
  the task waits (\<open>Exited\<close> once \<^verbatim>\<open>run\<close> has returned) and whose inputs are what the
  environment does next: the awaited call returns or raises, or \<^verbatim>\<open>stop()\<close> is called
  while the task waits. An input that cannot occur at the current point gives \<open>None\<close>.
  \<open>MqttError\<close> and \<open>Unexpected\<close> tell which of the two \<^verbatim>\<open>except\<close> clauses of \<^verbatim>\<open>run\<close>
  catches a failure; \<open>Stream_fails\<close> stands for any exception raised inside the message
  loop outside \<^verbatim>\<open>_process_message\<close>, \<open>Stream_ends\<close> for the message iterator ending.
\<close>

datatype loc = Connecting | Subscribing | Receiving | Sleeping | Exited

datatype failure = MqttError | Unexpected

datatype 'm input =
    Connect_ok
  | Connect_fails failure
  | Subscribe_ok
  | Subscribe_fails failure
  | Message 'm
  | Stream_fails failure
  | Stream_ends
  | Wake
  | Stop

record 'db supervisor =
  this :: bambu
  db_store :: 'db
  reconnect_delay :: int
  point :: loc

definition max_reconnect_delay :: int where
  "max_reconnect_delay = 300"

text \<open>The head of the loop, \<^verbatim>\<open>while self.running\<close>: either a connection is opened or the
  loop is left and \<^verbatim>\<open>run\<close> returns.\<close>

definition loop_top :: "'db supervisor \<Rightarrow> 'db supervisor \<times> event list" where
  "loop_top s =
     (if running (this s) then (s\<lparr>point := Connecting\<rparr>, [Open_client])
      else (s\<lparr>point := Exited\<rparr>, [Log Info Stopped]))"

text \<open>The two \<^verbatim>\<open>except\<close> clauses of \<^verbatim>\<open>run\<close>, which differ in the log line only: leave
  the loop if the client was stopped, otherwise sleep for the current delay.\<close>

definition on_error :: "failure \<Rightarrow> 'db supervisor \<Rightarrow> 'db supervisor \<times> event list" where
  "on_error k s =
     (if \<not> running (this s) then (s\<lparr>point := Exited\<rparr>, [Log Info Stopped])
      else
        (s\<lparr>point := Sleeping\<rparr>,
         [Log Error (case k of MqttError \<Rightarrow> Connection_error | Unexpected \<Rightarrow> Unexpected_error),
          Log Info (Reconnecting (reconnect_delay s)),
          Sleep (reconnect_delay s)]))"

text \<open>\<^verbatim>\<open>BambuMQTTClient.stop\<close>.\<close>

definition stop :: "bambu \<Rightarrow> bambu" where
  "stop self = self\<lparr>running := False\<rparr>"

definition step ::
  "('m, 'db) lib \<Rightarrow> 'db supervisor \<Rightarrow> 'm input \<Rightarrow> ('db supervisor \<times> event list) option" where
  "step L s i =
     (case i of
        Stop \<Rightarrow> Some (s\<lparr>this := stop (this s)\<rparr>, [Log Info Stopping])
      | Connect_ok \<Rightarrow>
          (if point s = Connecting
           then Some (s\<lparr>this := (this s)\<lparr>client := True\<rparr>, reconnect_delay := 5,
                        point := Subscribing\<rparr>,
                      [Log Info Connected])
           else None)
      | Connect_fails k \<Rightarrow> (if point s = Connecting then Some (on_error k s) else None)
      | Subscribe_ok \<Rightarrow>
          (if point s = Subscribing then Some (s\<lparr>point := Receiving\<rparr>, [Log Info Subscribed])
           else None)
      | Subscribe_fails k \<Rightarrow> (if point s = Subscribing then Some (on_error k s) else None)
      | Message m \<Rightarrow>
          (if point s = Receiving
           then
             (if \<not> running (this s) then Some (loop_top s)
              else
                (case process_message L (this s) (db_store s) m of
                   (self', db', evs) \<Rightarrow>
                     Some (s\<lparr>this := self', db_store := db'\<rparr>, Open_session # evs)))
           else None)
      | Stream_fails k \<Rightarrow> (if point s = Receiving then Some (on_error k s) else None)
      | Stream_ends \<Rightarrow> (if point s = Receiving then Some (loop_top s) else None)
      | Wake \<Rightarrow>
          (if point s = Sleeping
           then Some (loop_top
                        (s\<lparr>reconnect_delay :=
                             min (reconnect_delay s * 2) max_reconnect_delay\<rparr>))
           else None))"

text \<open>The start of \<^verbatim>\<open>run\<close> up to the first await: the flag is set, the delay starts at 5
  and the loop is entered. The TLS context and the three log lines written before the
  loop have no influence on what follows and are left out.\<close>

definition run :: "bambu \<Rightarrow> 'db \<Rightarrow> 'db supervisor \<times> event list" where
  "run self db =
     loop_top \<lparr>this = self\<lparr>running := True\<rparr>, db_store = db, reconnect_delay = 5,
               point = Connecting\<rparr>"

text \<open>The machine run over a list of inputs, with everything it emitted.\<close>

fun exec ::
  "('m, 'db) lib \<Rightarrow> 'db supervisor \<Rightarrow> 'm input list \<Rightarrow> ('db supervisor \<times> event list) option"
  where
  "exec L s [] = Some (s, [])"
| "exec L s (i # ins) =
     (case step L s i of
        None \<Rightarrow> None
      | Some (s', evs) \<Rightarrow>
          (case exec L s' ins of
             None \<Rightarrow> None
           | Some (s'', evs') \<Rightarrow> Some (s'', evs @ evs')))"

section \<open>Notions used to state the properties\<close>

text \<open>The delays slept, in order.\<close>

fun sleeps :: "event list \<Rightarrow> int list" where
  "sleeps [] = []"
| "sleeps (Sleep n # evs) = n # sleeps evs"
| "sleeps (e # evs) = sleeps evs"

text \<open>The calls of \<^verbatim>\<open>spool_db.update\<close>, in order.\<close>

fun is_update :: "event \<Rightarrow> bool" where
  "is_update (Db_update slot spool w) = True"
| "is_update e = False"

definition attempts :: "event list \<Rightarrow> event list" where
  "attempts evs = filter is_update evs"

text \<open>The updates made for one slot.\<close>

fun is_update_for :: "string \<Rightarrow> event \<Rightarrow> bool" where
  "is_update_for s (Db_update slot spool w) = (slot = s)"
| "is_update_for s e = False"

definition updates_for :: "string \<Rightarrow> event list \<Rightarrow> event list" where
  "updates_for s evs = filter (is_update_for s) evs"

text \<open>A tray record of slot \<open>s\<close>: a dict whose \<^verbatim>\<open>id\<close> has the string form \<open>s\<close>.\<close>

fun is_slot_record :: "('m, 'db) lib \<Rightarrow> string \<Rightarrow> json \<Rightarrow> bool" where
  "is_slot_record L s (JObj kv) = (py_str L (dict_get kv ''id'' (JStr [])) = s)"
| "is_slot_record L s v = False"

text \<open>The tray lists of the AMS units of \<^verbatim>\<open>ams_data\<close>, and all tray records of a slot in
  them. Only a list of dicts with a list under \<^verbatim>\<open>tray\<close> holds tray records; iterating
  over a string or a dict yields strings, which are no records.\<close>

fun trays_of_unit :: "json \<Rightarrow> json list" where
  "trays_of_unit (JObj kv) = (case map_of kv ''tray'' of Some (JArr ts) \<Rightarrow> ts | _ \<Rightarrow> [])"
| "trays_of_unit v = []"

fun units_of :: "json \<Rightarrow> json list" where
  "units_of (JArr us) = us"
| "units_of v = []"

definition slot_records :: "('m, 'db) lib \<Rightarrow> string \<Rightarrow> json \<Rightarrow> json list" where
  "slot_records L s ams_data =
     filter (is_slot_record L s) (concat (map trays_of_unit (units_of ams_data)))"

text \<open>
  The change filter lets a percentage through unless the comparison \<open>|new - prior| < 0.5\<close>
  holds. \<open>settled_at L m b t\<close> says that a tray record \<open>t\<close> is not let through when the slot
  mapping is \<open>m\<close> and the last known percentage of its slot is \<open>b\<close>.
\<close>

fun settled_at ::
  "('m, 'db) lib \<Rightarrow> (string \<rightharpoonup> int) \<Rightarrow> pyfloat option \<Rightarrow> json \<Rightarrow> bool" where
  "settled_at L m b (JObj kv) =
     (case m (py_str L (dict_get kv ''id'' (JStr []))) of
        None \<Rightarrow> True
      | Some spool \<Rightarrow>
          (case py_float L (dict_get kv ''remain'' JNull) of
             Inl e \<Rightarrow> True
           | Inr p \<Rightarrow> no_significant_change b p))"
| "settled_at L m b v = True"

text \<open>
  What a pass over tray records leaves behind for slot \<open>s\<close>, where \<open>recs\<close> are the records
  of \<open>s\<close> among them: the mapping is the same, the stored percentage of \<open>s\<close> is the same if
  there was no record of \<open>s\<close>, every record of \<open>s\<close> is not let through any more, and no more
  store calls were made for \<open>s\<close> than there are records of \<open>s\<close>.
\<close>

definition visited ::
  "('m, 'db) lib \<Rightarrow> string \<Rightarrow> json list \<Rightarrow> bambu \<Rightarrow> bambu \<Rightarrow> event list \<Rightarrow> bool" where
  "visited L s recs self self' evs \<longleftrightarrow>
     ams_mappings self' = ams_mappings self \<and>
     (recs = [] \<longrightarrow> last_remaining self' s = last_remaining self s) \<and>
     (\<forall>t \<in> set recs. settled_at L (ams_mappings self') (last_remaining self' s) t) \<and>
     length (updates_for s evs) \<le> length recs"

text \<open>A tray record whose percentage, if it is numeric, is a finite number.\<close>

fun finite_percent :: "('m, 'db) lib \<Rightarrow> json \<Rightarrow> bool" where
  "finite_percent L (JObj kv) =
     (case py_float L (dict_get kv ''remain'' JNull) of
        Inr (Finite a) \<Rightarrow> True
      | Inr x \<Rightarrow> False
      | Inl e \<Rightarrow> True)"
| "finite_percent L v = True"

text \<open>The value that \<^verbatim>\<open>_process_message\<close> hands to \<^verbatim>\<open>_process_ams_data\<close>, read off the
  payload directly, and the tray records of a slot in a message.\<close>

definition ams_data_of :: "json \<Rightarrow> json" where
  "ams_data_of payload =
     (case payload of
        JObj kv \<Rightarrow>
          (case map_of kv ''print'' of
             Some (JObj pd) \<Rightarrow>
               (case dict_get pd ''ams'' (JObj []) of
                  JObj a \<Rightarrow> dict_get a ''ams'' (JArr [])
                | _ \<Rightarrow> JArr [])
           | _ \<Rightarrow> JArr [])
      | _ \<Rightarrow> JArr [])"

definition message_records :: "('m, 'db) lib \<Rightarrow> string \<Rightarrow> 'm \<Rightarrow> json list" where
  "message_records L s message =
     (case payload_decode L message of
        Inl e \<Rightarrow> []
      | Inr text \<Rightarrow>
          (case json_loads L text of
             Inl e \<Rightarrow> []
           | Inr payload \<Rightarrow> slot_records L s (ams_data_of payload)))"

section \<open>Sample data\<close>

text \<open>
  Concrete inputs on which the results below are evaluated. The sample library decodes a
  payload as it is, knows three named documents, parses one numeric string, and has a
  store that records the updates made and fails on spool 13.
\<close>

definition report :: "json list list \<Rightarrow> json" where
  "report units =
     JObj [(''print'',
            JObj [(''ams'',
                   JObj [(''ams'', JArr (map (\<lambda>ts. JObj [(''tray'', JArr ts)]) units))])])]"

definition tray_60 :: json where
  "tray_60 = JObj [(''id'', JInt 0), (''remain'', JInt 60), (''tray_weight'', JInt 1000)]"

definition tray_50 :: json where
  "tray_50 = JObj [(''id'', JStr ''0''), (''remain'', JInt 50), (''tray_weight'', JInt 1000)]"

definition tray_inf :: json where
  "tray_inf =
     JObj [(''id'', JStr ''0''), (''remain'', JFloat PInf), (''tray_weight'', JInt 1000)]"

definition tray_bad_remain :: json where
  "tray_bad_remain =
     JObj [(''id'', JStr ''0''), (''remain'', JStr ''abc''), (''tray_weight'', JInt 1000)]"

definition tray_no_id :: json where
  "tray_no_id = JObj [(''remain'', JInt 25), (''tray_weight'', JInt 500)]"

definition tray_fail :: json where
  "tray_fail = JObj [(''id'', JStr ''1''), (''remain'', JInt 40), (''tray_weight'', JInt 1000)]"

definition tray_unmapped :: json where
  "tray_unmapped =
     JObj [(''id'', JStr ''3''), (''remain'', JInt 40), (''tray_weight'', JInt 1000)]"

definition sample_documents :: "(string \<times> json) list" where
  "sample_documents =
     [(''one_tray'', report [[tray_60]]),
      (''two_units'', report [[tray_50], [tray_60]]),
      (''fail_then_ok'', report [[tray_fail, tray_unmapped, tray_60]])]"

definition sample_lib :: "(string, (int \<times> pyfloat) list) lib" where
  "sample_lib =
     \<lparr>payload_decode = Inr,
      json_loads =
        (\<lambda>t. case map_of sample_documents t of
                None \<Rightarrow> Inl JSONDecodeError
              | Some doc \<Rightarrow> Inr doc),
      float_of_str = (\<lambda>s. if s = ''60'' then Some (Finite 60) else None),
      repr_of = (\<lambda>v. ''?''),
      spool_update =
        (\<lambda>db spool w. if spool = 13 then (False, db) else (True, db @ [(spool, w)]))\<rparr>"

definition sample_mappings :: "string \<rightharpoonup> int" where
  "sample_mappings = [''0'' \<mapsto> 7, ''1'' \<mapsto> 13, [] \<mapsto> 9]"

definition sample_client :: bambu where
  "sample_client = init sample_mappings"


text \<open>A store that never fails, and a supervisor of the sample client that waits for the
  next message.\<close>

definition always_ok ::
  "(int \<times> pyfloat) list \<Rightarrow> int \<Rightarrow> pyfloat \<Rightarrow> bool \<times> (int \<times> pyfloat) list" where
  "always_ok db spool w = (True, db @ [(spool, w)])"

definition sample_receiving :: "(int \<times> pyfloat) list supervisor" where
  "sample_receiving =
     \<lparr>this = sample_client\<lparr>client := True, running := True\<rparr>, db_store = [],
      reconnect_delay = 5, point = Receiving\<rparr>"

text \<open>The supervisor of the sample client when \<^verbatim>\<open>run\<close> has started.\<close>

definition sample_started :: "(int \<times> pyfloat) list supervisor" where
  "sample_started = fst (run sample_client [])"

text \<open>\<open>n\<close> connection attempts that fail one after the other, each followed by the end of
  its backoff sleep; and the events of a run, none if an input could not occur.\<close>

definition failed_attempts :: "nat \<Rightarrow> failure \<Rightarrow> 'm input list" where
  "failed_attempts n k = concat (replicate n [Connect_fails k, Wake])"

definition trace_of :: "('s \<times> event list) option \<Rightarrow> event list" where
  "trace_of x = (case x of None \<Rightarrow> [] | Some (s, evs) \<Rightarrow> evs)"

section \<open>Basic facts\<close>



lemma py_float_JNull: "py_float L JNull = Inl TypeError"
  by (simp add: py_float_def)

lemmas sample_defs =
  sample_lib_def sample_client_def sample_mappings_def sample_documents_def init_def report_def
  tray_60_def tray_50_def tray_inf_def tray_bad_remain_def tray_no_id_def tray_fail_def
  tray_unmapped_def

lemmas tray_defs =
  process_tray_def store_and_update_def no_significant_change_def Let_def dict_get_def
  py_str_def py_float_def str_int_def str_nat.simps

subsection \<open>One tray record\<close>

text \<open>What the second half of the loop body does, by the outcome of coercing the weight.\<close>

lemma store_and_update_cases:
  "store_and_update L self db kv s spool p = (r, self', db', evs) \<Longrightarrow>
     self' = self\<lparr>last_remaining := (last_remaining self)(s \<mapsto> p)\<rparr> \<and>
     ((\<exists>e. py_float L (dict_get kv ''tray_weight'' JNull) = Inl e \<and> db' = db \<and>
           (\<forall>slot sp w. Db_update slot sp w \<notin> set evs)) \<or>
      (\<exists>tw ok. py_float L (dict_get kv ''tray_weight'' JNull) = Inr tw \<and> r = None \<and>
           spool_update L db spool (fmul (fdiv_pos p 100) tw) = (ok, db') \<and>
           evs = [Log Info (Slot_remaining s spool p (fmul (fdiv_pos p 100) tw)),
                  Db_update s spool (fmul (fdiv_pos p 100) tw),
                  if ok then Log Info (Updated_spool spool (fmul (fdiv_pos p 100) tw))
                  else Log Error (Failed_update spool)]))"
  by (auto simp: store_and_update_def Let_def py_float_JNull
      split: if_splits sum.splits prod.splits bool.splits)



lemma process_tray_sample_60:
  "process_tray sample_lib sample_client [] tray_60 =
     (None, sample_client\<lparr>last_remaining := [''0'' \<mapsto> Finite 60]\<rparr>, [(7, Finite 600)],
      [Log Info (Slot_remaining ''0'' 7 (Finite 60) (Finite 600)),
       Db_update ''0'' 7 (Finite 600),
       Log Info (Updated_spool 7 (Finite 600))])"
  by (simp add: sample_defs tray_defs)

section \<open>The change filter decides the dispatch\<close>





section \<open>A percentage that is not a number\<close>

text \<open>
  Claim C2, as the code has it. For a record of a mapped slot whose percentage is present
  and on which \<^verbatim>\<open>float\<close> raises ValueError or TypeError (a string that is no number, a
  list, a dict), the value is logged at warning level, the store is not called, no
  exception leaves the loop body, and the client is left as it was: the percentage stored
  for the slot is not touched.
\<close>

theorem invalid_remain_warns_and_keeps_baseline:
  assumes "ams_mappings self (py_str L (dict_get kv ''id'' (JStr []))) = Some spool"
    and "dict_get kv ''remain'' JNull \<noteq> JNull"
    and "py_float L (dict_get kv ''remain'' JNull) = Inl e"
    and "e = ValueError \<or> e = TypeError"
  shows "process_tray L self db (JObj kv) =
           (None, self, db,
            [Log Warning (Invalid_remain (py_str L (dict_get kv ''id'' (JStr [])))
                            (dict_get kv ''remain'' JNull))])"
  using assms by (auto simp: process_tray_def Let_def)

theorem invalid_remain_warns_and_keeps_baseline_witness:
  "process_tray sample_lib (sample_client\<lparr>last_remaining := [''0'' \<mapsto> Finite 50]\<rparr>) []
     (JObj [(''id'', JStr ''0''), (''remain'', JStr ''abc''), (''tray_weight'', JInt 1000)]) =
   (None, sample_client\<lparr>last_remaining := [''0'' \<mapsto> Finite 50]\<rparr>, [],
    [Log Warning (Invalid_remain ''0'' (JStr ''abc''))])"
proof -
  let ?kv = "[(''id'', JStr ''0''), (''remain'', JStr ''abc''), (''tray_weight'', JInt 1000)]"
  let ?self = "sample_client\<lparr>last_remaining := [''0'' \<mapsto> Finite 50]\<rparr>"
  have 1: "ams_mappings ?self (py_str sample_lib (dict_get ?kv ''id'' (JStr []))) = Some 7"
    by (simp add: sample_defs dict_get_def py_str_def)
  have 2: "dict_get ?kv ''remain'' JNull \<noteq> JNull"
    by (simp add: dict_get_def)
  have 3: "py_float sample_lib (dict_get ?kv ''remain'' JNull) = Inl ValueError"
    by (simp add: sample_defs dict_get_def py_float_def)
  have 4: "ValueError = ValueError \<or> ValueError = TypeError"
    by simp
  from invalid_remain_warns_and_keeps_baseline [OF 1 2 3 4]
  show ?thesis by (simp add: dict_get_def py_str_def)
qed

text \<open>
  Claim C2 as it is worded fails: a percentage that is not a number does not advance the
  baseline. The sample client has no percentage stored for slot 0; after a record of
  slot 0 with the percentage \<^verbatim>\<open>"abc"\<close> it still has none, and the client is unchanged.
\<close>

theorem invalid_remain_baseline_counterexample:
  "process_tray sample_lib sample_client [] tray_bad_remain =
     (None, sample_client, [], [Log Warning (Invalid_remain ''0'' (JStr ''abc''))]) \<and>
   ams_mappings sample_client ''0'' = Some 7 \<and>
   last_remaining sample_client ''0'' = None"
  by (simp add: sample_defs tray_defs)

section \<open>The weight that is dispatched\<close>



section \<open>The slot identifier of a record\<close>




section \<open>From one record to a whole message\<close>

text \<open>
  Take a relation between the client before, the client after and the events emitted. If
  it holds for the processing of every tray record, holds when nothing happens and
  composes along a sequence, then it holds for both loops and for \<^verbatim>\<open>_process_ams_data\<close>;
  if a single log line also satisfies it, it holds for \<^verbatim>\<open>_process_message\<close>.
\<close>

lemma process_trays_lift:
  assumes step: "\<And>self db t r self' db' evs.
      process_tray L self db t = (r, self', db', evs) \<Longrightarrow> R self self' evs"
    and refl: "\<And>self. R self self []"
    and trans: "\<And>a b c e1 e2. R a b e1 \<Longrightarrow> R b c e2 \<Longrightarrow> R a c (e1 @ e2)"
  shows "process_trays L self db ts = (r, self', db', evs) \<Longrightarrow> R self self' evs"
proof (induction ts arbitrary: self db r self' db' evs)
  case Nil
  then show ?case using refl by simp
next
  case (Cons t ts)
  obtain r1 s1 d1 e1 where t: "process_tray L self db t = (r1, s1, d1, e1)"
    by (cases "process_tray L self db t") auto
  have R1: "R self s1 e1" using step [OF t] .
  show ?case
  proof (cases r1)
    case None
    obtain r2 s2 d2 e2 where ts: "process_trays L s1 d1 ts = (r2, s2, d2, e2)"
      by (cases "process_trays L s1 d1 ts") auto
    from Cons.prems t None ts have "self' = s2" "evs = e1 @ e2" by auto
    with trans [OF R1 Cons.IH [OF ts]] show ?thesis by simp
  next
    case (Some e)
    with Cons.prems t have "self' = s1" "evs = e1" by auto
    with R1 show ?thesis by simp
  qed
qed

lemma process_unit_lift:
  assumes step: "\<And>self db t r self' db' evs.
      process_tray L self db t = (r, self', db', evs) \<Longrightarrow> R self self' evs"
    and refl: "\<And>self. R self self []"
    and trans: "\<And>a b c e1 e2. R a b e1 \<Longrightarrow> R b c e2 \<Longrightarrow> R a c (e1 @ e2)"
  shows "process_unit L self db u = (r, self', db', evs) \<Longrightarrow> R self self' evs"
  using refl process_trays_lift [where R = R, OF step refl trans]
  by (auto simp: process_unit_def split: sum.splits bool.splits)

lemma process_units_lift:
  assumes step: "\<And>self db t r self' db' evs.
      process_tray L self db t = (r, self', db', evs) \<Longrightarrow> R self self' evs"
    and refl: "\<And>self. R self self []"
    and trans: "\<And>a b c e1 e2. R a b e1 \<Longrightarrow> R b c e2 \<Longrightarrow> R a c (e1 @ e2)"
  shows "process_units L self db us = (r, self', db', evs) \<Longrightarrow> R self self' evs"
proof (induction us arbitrary: self db r self' db' evs)
  case Nil
  then show ?case using refl by simp
next
  case (Cons u us)
  obtain r1 s1 d1 e1 where u: "process_unit L self db u = (r1, s1, d1, e1)"
    by (cases "process_unit L self db u") auto
  have R1: "R self s1 e1"
    using process_unit_lift [where R = R, OF step refl trans u] .
  show ?case
  proof (cases r1)
    case None
    obtain r2 s2 d2 e2 where us: "process_units L s1 d1 us = (r2, s2, d2, e2)"
      by (cases "process_units L s1 d1 us") auto
    from Cons.prems u None us have "self' = s2" "evs = e1 @ e2" by auto
    with trans [OF R1 Cons.IH [OF us]] show ?thesis by simp
  next
    case (Some e)
    with Cons.prems u have "self' = s1" "evs = e1" by auto
    with R1 show ?thesis by simp
  qed
qed

lemma walk_payload_lift:
  assumes step: "\<And>self db t r self' db' evs.
      process_tray L self db t = (r, self', db', evs) \<Longrightarrow> R self self' evs"
    and refl: "\<And>self. R self self []"
    and trans: "\<And>a b c e1 e2. R a b e1 \<Longrightarrow> R b c e2 \<Longrightarrow> R a c (e1 @ e2)"
  shows "walk_payload L self db payload = (r, self', db', evs) \<Longrightarrow> R self self' evs"
  using refl process_units_lift [where R = R, OF step refl trans]
  by (auto simp: walk_payload_def process_ams_data_def split: sum.splits bool.splits if_splits)

lemma process_message_lift:
  assumes step: "\<And>self db t r self' db' evs.
      process_tray L self db t = (r, self', db', evs) \<Longrightarrow> R self self' evs"
    and refl: "\<And>self. R self self []"
    and trans: "\<And>a b c e1 e2. R a b e1 \<Longrightarrow> R b c e2 \<Longrightarrow> R a c (e1 @ e2)"
    and log: "\<And>a l m. R a a [Log l m]"
  shows "process_message L self db message = (self', db', evs) \<Longrightarrow> R self self' evs"
proof -
  assume pm: "process_message L self db message = (self', db', evs)"
  show ?thesis
  proof (cases "payload_decode L message")
    case (Inl e)
    with pm log show ?thesis by (auto simp: process_message_def)
  next
    case (Inr body)
    note dec = this
    show ?thesis
    proof (cases "json_loads L body")
      case (Inl e)
      with pm dec log show ?thesis by (auto simp: process_message_def split: if_splits)
    next
      case (Inr payload)
      obtain r s1 d1 e1 where w: "walk_payload L self db payload = (r, s1, d1, e1)"
        by (cases "walk_payload L self db payload") auto
      have R1: "R self s1 e1"
        using walk_payload_lift [where R = R, OF step refl trans w] .
      show ?thesis
      proof (cases r)
        case None
        with pm dec Inr w have "self' = s1" "evs = e1" by (auto simp: process_message_def)
        with R1 show ?thesis by simp
      next
        case (Some e)
        with pm dec Inr w have "self' = s1" "evs = e1 @ [Log Error Processing_error]"
          by (auto simp: process_message_def)
        with trans [OF R1 log] show ?thesis by simp
      qed
    qed
  qed
qed

lemmas message_defs =
  process_message_def walk_payload_def process_ams_data_def process_unit_def py_contains_def
  py_getitem_def py_get_def py_truthy_def py_iter_def

section \<open>Unmapped slots\<close>

lemma process_tray_unmapped_frame:
  assumes "process_tray L self db t = (r, self', db', evs)"
  shows "ams_mappings self' = ams_mappings self \<and>
         (\<forall>s. ams_mappings self s = None \<longrightarrow>
            last_remaining self' s = last_remaining self s \<and>
            (\<forall>spool w. Db_update s spool w \<notin> set evs))"
  using assms
  by (cases t)
     (auto simp: process_tray_def Let_def split: option.splits if_splits sum.splits
        dest!: store_and_update_cases)

lemma process_message_unmapped_frame:
  assumes "process_message L self db message = (self', db', evs)"
  shows "ams_mappings self' = ams_mappings self \<and>
         (\<forall>s. ams_mappings self s = None \<longrightarrow>
            last_remaining self' s = last_remaining self s \<and>
            (\<forall>spool w. Db_update s spool w \<notin> set evs))"
proof (rule process_message_lift [where L = L and R = "\<lambda>a b e.
      ams_mappings b = ams_mappings a \<and>
      (\<forall>s. ams_mappings a s = None \<longrightarrow>
         last_remaining b s = last_remaining a s \<and>
         (\<forall>spool w. Db_update s spool w \<notin> set e))", OF _ _ _ _ assms])
  show "\<And>self db t r self' db' evs.
       process_tray L self db t = (r, self', db', evs) \<Longrightarrow>
       ams_mappings self' = ams_mappings self \<and>
       (\<forall>s. ams_mappings self s = None \<longrightarrow>
            last_remaining self' s = last_remaining self s \<and>
            (\<forall>spool w. Db_update s spool w \<notin> set evs))"
    by (rule process_tray_unmapped_frame)
qed auto

text \<open>
  Claim C8. Whatever a message holds, processing it leaves the slot mapping as it was,
  and for an identifier that is not a key of the mapping it neither creates nor changes a
  stored percentage nor calls the store. So if every key of the stored percentages is a
  key of the mapping before the message, as it is for a new client, it is so after it.
\<close>

theorem unmapped_slot_never_tracked:
  assumes "process_message L self db message = (self', db', evs)"
  shows "ams_mappings self' = ams_mappings self \<and>
         (\<forall>s. s \<notin> dom (ams_mappings self) \<longrightarrow>
            last_remaining self' s = last_remaining self s \<and>
            (\<forall>spool w. Db_update s spool w \<notin> set evs)) \<and>
         (dom (last_remaining self) \<subseteq> dom (ams_mappings self) \<longrightarrow>
            dom (last_remaining self') \<subseteq> dom (ams_mappings self')) \<and>
         dom (last_remaining (init mappings)) \<subseteq> dom (ams_mappings (init mappings))"
proof -
  note f = process_message_unmapped_frame [OF assms]
  have a: "\<forall>s. s \<notin> dom (ams_mappings self) \<longrightarrow>
            last_remaining self' s = last_remaining self s \<and>
            (\<forall>spool w. Db_update s spool w \<notin> set evs)"
    using f by (simp add: dom_def)
  have b: "dom (last_remaining self') \<subseteq> dom (ams_mappings self')"
    if "dom (last_remaining self) \<subseteq> dom (ams_mappings self)"
  proof
    fix s assume s: "s \<in> dom (last_remaining self')"
    show "s \<in> dom (ams_mappings self')"
    proof (rule ccontr)
      assume "s \<notin> dom (ams_mappings self')"
      then have n: "s \<notin> dom (ams_mappings self)" using f by simp
      with a have "last_remaining self' s = last_remaining self s" by blast
      with s have "s \<in> dom (last_remaining self)" by (simp add: dom_def)
      with that n show False by blast
    qed
  qed
  from f a b show ?thesis by (simp add: init_def)
qed

lemma process_message_sample_fail_then_ok:
  "process_message sample_lib sample_client [] ''fail_then_ok'' =
     (sample_client\<lparr>last_remaining := [''1'' \<mapsto> Finite 40, ''0'' \<mapsto> Finite 60]\<rparr>,
      [(7, Finite 600)],
      [Log Info (Slot_remaining ''1'' 13 (Finite 40) (Finite 400)),
       Db_update ''1'' 13 (Finite 400),
       Log Error (Failed_update 13),
       Log Info (Slot_remaining ''0'' 7 (Finite 60) (Finite 600)),
       Db_update ''0'' 7 (Finite 600),
       Log Info (Updated_spool 7 (Finite 600))])"
  by (simp add: sample_defs message_defs tray_defs)

theorem unmapped_slot_never_tracked_witness:
  "ams_mappings (sample_client\<lparr>last_remaining := [''1'' \<mapsto> Finite 40, ''0'' \<mapsto> Finite 60]\<rparr>) =
     ams_mappings sample_client \<and>
   ''3'' \<notin> dom (ams_mappings sample_client) \<and>
   dom (last_remaining sample_client) \<subseteq> dom (ams_mappings sample_client) \<and>
   dom [''1'' \<mapsto> Finite 40, ''0'' \<mapsto> Finite 60] \<subseteq> dom (ams_mappings sample_client) \<and>
   (\<forall>spool w. Db_update ''3'' spool w \<notin>
      set [Log Info (Slot_remaining ''1'' 13 (Finite 40) (Finite 400)),
           Db_update ''1'' 13 (Finite 400),
           Log Error (Failed_update 13),
           Log Info (Slot_remaining ''0'' 7 (Finite 60) (Finite 600)),
           Db_update ''0'' 7 (Finite 600),
           Log Info (Updated_spool 7 (Finite 600))])"
proof -
  have 1: "''3'' \<notin> dom (ams_mappings sample_client)"
    by (simp add: sample_defs)
  have 2: "dom (last_remaining sample_client) \<subseteq> dom (ams_mappings sample_client)"
    by (simp add: sample_defs)
  from unmapped_slot_never_tracked [OF process_message_sample_fail_then_ok] 1 2
  show ?thesis by simp
qed


section \<open>A payload that is not JSON\<close>

text \<open>
  Claim C5. When the payload cannot be decoded or \<^verbatim>\<open>json.loads\<close> raises on it, processing
  the message writes one log line and nothing else: the store is not called and the
  client and the store are returned as they were. The line is the warning of the
  JSONDecodeError handler when the text is not JSON. In the message loop of a running
  client the supervisor state after such a message is the state before it, so the loop
  goes on waiting for the next message with the same reconnect delay.
\<close>

theorem malformed_json_is_discarded:
  assumes "payload_decode L message = Inl e \<or>
           (payload_decode L message = Inr body \<and> json_loads L body = Inl e)"
  shows "\<exists>line. (line = Log Warning Json_decode_failed \<or> line = Log Error Processing_error) \<and>
           process_message L self db message = (self, db, [line]) \<and>
           (point s = Receiving \<and> running (this s) \<longrightarrow>
              step L s (Message message) = Some (s, [Open_session, line])) \<and>
           (payload_decode L message = Inr body \<and> json_loads L body = Inl JSONDecodeError \<longrightarrow>
              line = Log Warning Json_decode_failed)"
proof -
  have "\<exists>line. (line = Log Warning Json_decode_failed \<or> line = Log Error Processing_error) \<and>
      (\<forall>c d. process_message L c d message = (c, d, [line])) \<and>
      (payload_decode L message = Inr body \<and> json_loads L body = Inl JSONDecodeError \<longrightarrow>
         line = Log Warning Json_decode_failed)"
  proof (cases "payload_decode L message")
    case (Inl e')
    then show ?thesis by (simp add: process_message_def)
  next
    case (Inr body')
    with assms have j: "body' = body" "json_loads L body = Inl e" by auto
    show ?thesis
    proof (cases "e = JSONDecodeError")
      case True
      with Inr j show ?thesis by (simp add: process_message_def)
    next
      case False
      with Inr j show ?thesis by (simp add: process_message_def)
    qed
  qed
  then obtain line where
    k: "line = Log Warning Json_decode_failed \<or> line = Log Error Processing_error"
    and p: "\<And>c d. process_message L c d message = (c, d, [line])"
    and w: "payload_decode L message = Inr body \<and> json_loads L body = Inl JSONDecodeError \<longrightarrow>
         line = Log Warning Json_decode_failed"
    by blast
  have "step L s (Message message) = Some (s, [Open_session, line])"
    if "point s = Receiving \<and> running (this s)"
    using that by (simp add: step_def p)
  with k p w show ?thesis by blast
qed

theorem malformed_json_is_discarded_witness:
  "process_message sample_lib sample_client [(7, Finite 600)] ''{not json'' =
     (sample_client, [(7, Finite 600)], [Log Warning Json_decode_failed]) \<and>
   step sample_lib sample_receiving (Message ''{not json'') =
     Some (sample_receiving, [Open_session, Log Warning Json_decode_failed])"
proof -
  have 1: "payload_decode sample_lib ''{not json'' = Inr ''{not json''"
    by (simp add: sample_lib_def)
  have 2: "json_loads sample_lib ''{not json'' = Inl JSONDecodeError"
    by (simp add: sample_lib_def sample_documents_def)
  have 3: "point sample_receiving = Receiving \<and> running (this sample_receiving)"
    by (simp add: sample_receiving_def)
  from malformed_json_is_discarded
    [where L = sample_lib and message = "''{not json''" and body = "''{not json''"
       and e = JSONDecodeError and self = sample_client and db = "[(7, Finite 600)]"
       and s = sample_receiving, OF disjI2 [OF conjI [OF 1 2]]]
  obtain line where
    a: "process_message sample_lib sample_client [(7, Finite 600)] ''{not json'' =
          (sample_client, [(7, Finite 600)], [line])"
    and b: "point sample_receiving = Receiving \<and> running (this sample_receiving) \<longrightarrow>
          step sample_lib sample_receiving (Message ''{not json'') =
            Some (sample_receiving, [Open_session, line])"
    and c: "payload_decode sample_lib ''{not json'' = Inr ''{not json'' \<and>
          json_loads sample_lib ''{not json'' = Inl JSONDecodeError \<longrightarrow>
          line = Log Warning Json_decode_failed"
    by blast
  from c 1 2 have "line = Log Warning Json_decode_failed" by blast
  with a b 3 show ?thesis by blast
qed

section \<open>A failing store\<close>

lemma py_float_spool_update [simp]: "py_float (L\<lparr>spool_update := u\<rparr>) v = py_float L v"
  by (cases v) (simp_all add: py_float_def)

lemma py_str_spool_update [simp]: "py_str (L\<lparr>spool_update := u\<rparr>) v = py_str L v"
  by (cases v) (simp_all add: py_str_def)

text \<open>
  What the store answers has no influence on the exception, on the client or on the
  calls made: two runs that differ in the store only agree on them.
\<close>

lemma process_tray_indep:
  assumes "process_tray L self db t = (r, s1, d1, e1)"
    and "process_tray (L\<lparr>spool_update := u\<rparr>) self db2 t = (r', s2, d2, e2)"
  shows "r' = r \<and> s2 = s1 \<and> attempts e2 = attempts e1"
  using assms
  by (cases t)
     (auto simp: process_tray_def store_and_update_def Let_def attempts_def
        split: option.splits if_splits sum.splits prod.splits bool.splits)

lemma process_trays_indep:
  assumes "process_trays L self db ts = (r, s1, d1, e1)"
    and "process_trays (L\<lparr>spool_update := u\<rparr>) self db2 ts = (r', s2, d2, e2)"
  shows "r' = r \<and> s2 = s1 \<and> attempts e2 = attempts e1"
  using assms
proof (induction ts arbitrary: self db db2 r s1 d1 e1 r' s2 d2 e2)
  case Nil
  then show ?case by (simp add: attempts_def)
next
  case (Cons t ts)
  obtain ra sa da ea where a: "process_tray L self db t = (ra, sa, da, ea)"
    by (cases "process_tray L self db t") auto
  obtain rb sb dbb eb where b: "process_tray (L\<lparr>spool_update := u\<rparr>) self db2 t = (rb, sb, dbb, eb)"
    by (cases "process_tray (L\<lparr>spool_update := u\<rparr>) self db2 t") auto
  note ab = process_tray_indep [OF a b]
  show ?case
  proof (cases ra)
    case None
    obtain rc sc dc ec where c: "process_trays L sa da ts = (rc, sc, dc, ec)"
      by (cases "process_trays L sa da ts") auto
    obtain rd sd dd ed where d: "process_trays (L\<lparr>spool_update := u\<rparr>) sa dbb ts = (rd, sd, dd, ed)"
      by (cases "process_trays (L\<lparr>spool_update := u\<rparr>) sa dbb ts") auto
    note cd = Cons.IH [OF c d]
    from Cons.prems a b ab None c d cd show ?thesis
      by (auto simp: attempts_def)
  next
    case (Some e)
    with Cons.prems a b ab show ?thesis by auto
  qed
qed

lemma process_unit_indep:
  assumes "process_unit L self db v = (r, s1, d1, e1)"
    and "process_unit (L\<lparr>spool_update := u\<rparr>) self db2 v = (r', s2, d2, e2)"
  shows "r' = r \<and> s2 = s1 \<and> attempts e2 = attempts e1"
  using assms process_trays_indep [of L self db _ r s1 d1 e1 u db2 r' s2 d2 e2]
  by (auto simp: process_unit_def attempts_def split: sum.splits bool.splits)

lemma process_units_indep:
  assumes "process_units L self db us = (r, s1, d1, e1)"
    and "process_units (L\<lparr>spool_update := u\<rparr>) self db2 us = (r', s2, d2, e2)"
  shows "r' = r \<and> s2 = s1 \<and> attempts e2 = attempts e1"
  using assms
proof (induction us arbitrary: self db db2 r s1 d1 e1 r' s2 d2 e2)
  case Nil
  then show ?case by (simp add: attempts_def)
next
  case (Cons v us)
  obtain ra sa da ea where a: "process_unit L self db v = (ra, sa, da, ea)"
    by (cases "process_unit L self db v") auto
  obtain rb sb dbb eb where b: "process_unit (L\<lparr>spool_update := u\<rparr>) self db2 v = (rb, sb, dbb, eb)"
    by (cases "process_unit (L\<lparr>spool_update := u\<rparr>) self db2 v") auto
  note ab = process_unit_indep [OF a b]
  show ?case
  proof (cases ra)
    case None
    obtain rc sc dc ec where c: "process_units L sa da us = (rc, sc, dc, ec)"
      by (cases "process_units L sa da us") auto
    obtain rd sd dd ed where d: "process_units (L\<lparr>spool_update := u\<rparr>) sa dbb us = (rd, sd, dd, ed)"
      by (cases "process_units (L\<lparr>spool_update := u\<rparr>) sa dbb us") auto
    note cd = Cons.IH [OF c d]
    from Cons.prems a b ab None c d cd show ?thesis
      by (auto simp: attempts_def)
  next
    case (Some e)
    with Cons.prems a b ab show ?thesis by auto
  qed
qed

lemma walk_payload_indep:
  assumes "walk_payload L self db payload = (r, s1, d1, e1)"
    and "walk_payload (L\<lparr>spool_update := u\<rparr>) self db2 payload = (r', s2, d2, e2)"
  shows "r' = r \<and> s2 = s1 \<and> attempts e2 = attempts e1"
  using assms process_units_indep [of L self db _ r s1 d1 e1 u db2 r' s2 d2 e2]
  by (auto simp: walk_payload_def process_ams_data_def attempts_def
      split: sum.splits bool.splits if_splits)

lemma process_message_indep:
  assumes "process_message L self db message = (s1, d1, e1)"
    and "process_message (L\<lparr>spool_update := u\<rparr>) self db2 message = (s2, d2, e2)"
  shows "s2 = s1 \<and> attempts e2 = attempts e1"
proof (cases "payload_decode L message")
  case (Inl e)
  with assms show ?thesis by (auto simp: process_message_def)
next
  case (Inr body)
  note dec = this
  show ?thesis
  proof (cases "json_loads L body")
    case (Inl e)
    with assms dec show ?thesis by (auto simp: process_message_def split: if_splits)
  next
    case (Inr payload)
    obtain ra sa da ea where a: "walk_payload L self db payload = (ra, sa, da, ea)"
      by (cases "walk_payload L self db payload") auto
    obtain rb sb dbb eb where b:
      "walk_payload (L\<lparr>spool_update := u\<rparr>) self db2 payload = (rb, sb, dbb, eb)"
      by (cases "walk_payload (L\<lparr>spool_update := u\<rparr>) self db2 payload") auto
    from walk_payload_indep [OF a b] assms dec Inr a b show ?thesis
      by (cases ra) (auto simp: process_message_def attempts_def)
  qed
qed

lemma step_indep:
  assumes "step L s i = Some (s1, e1)"
  shows "\<exists>s2 e2. step (L\<lparr>spool_update := u\<rparr>) (s\<lparr>db_store := db2\<rparr>) i = Some (s2, e2) \<and>
           this s2 = this s1 \<and> point s2 = point s1 \<and>
           reconnect_delay s2 = reconnect_delay s1 \<and> attempts e2 = attempts e1"
proof (cases i)
  case (Message m)
  show ?thesis
  proof (cases "point s = Receiving \<and> running (this s)")
    case True
    obtain sa da ea where a: "process_message L (this s) (db_store s) m = (sa, da, ea)"
      by (cases "process_message L (this s) (db_store s) m") auto
    obtain sb dbb eb where b:
      "process_message (L\<lparr>spool_update := u\<rparr>) (this s) db2 m = (sb, dbb, eb)"
      by (cases "process_message (L\<lparr>spool_update := u\<rparr>) (this s) db2 m") auto
    from process_message_indep [OF a b] assms Message True a b show ?thesis
      by (auto simp: step_def attempts_def)
  next
    case False
    with assms Message show ?thesis
      by (auto simp: step_def loop_top_def attempts_def split: if_splits)
  qed
qed (use assms in \<open>auto simp: step_def loop_top_def on_error_def stop_def attempts_def
       split: if_splits\<close>)

lemma exec_indep:
  assumes "exec L s ins = Some (s1, e1)"
  shows "\<exists>s2 e2. exec (L\<lparr>spool_update := u\<rparr>) (s\<lparr>db_store := db2\<rparr>) ins = Some (s2, e2) \<and>
           this s2 = this s1 \<and> point s2 = point s1 \<and>
           reconnect_delay s2 = reconnect_delay s1 \<and> attempts e2 = attempts e1"
  using assms
proof (induction ins arbitrary: s db2 s1 e1)
  case Nil
  then show ?case by (auto simp: attempts_def)
next
  case (Cons i ins)
  from Cons.prems obtain sa ea sb eb where
    a: "step L s i = Some (sa, ea)" and b: "exec L sa ins = Some (sb, eb)"
    and r: "s1 = sb" "e1 = ea @ eb"
    by (auto split: option.splits)
  from step_indep [OF a, of u db2] obtain sc ec where
    c: "step (L\<lparr>spool_update := u\<rparr>) (s\<lparr>db_store := db2\<rparr>) i = Some (sc, ec)"
    and c': "this sc = this sa" "point sc = point sa"
      "reconnect_delay sc = reconnect_delay sa" "attempts ec = attempts ea"
    by blast
  have sc: "sc = sa\<lparr>db_store := db_store sc\<rparr>"
    using c' by (cases sc, cases sa) simp
  from Cons.IH [OF b, of "db_store sc"] obtain sd ed where
    d: "exec (L\<lparr>spool_update := u\<rparr>) (sa\<lparr>db_store := db_store sc\<rparr>) ins = Some (sd, ed)"
    and d': "this sd = this sb" "point sd = point sb"
      "reconnect_delay sd = reconnect_delay sb" "attempts ed = attempts eb"
    by blast
  from c d sc have "exec (L\<lparr>spool_update := u\<rparr>) (s\<lparr>db_store := db2\<rparr>) (i # ins) = Some (sd, ec @ ed)"
    by simp
  with c' d' r show ?case by (simp add: attempts_def)
qed

text \<open>
  Claim C6. When the store fails on the update of one slot, the failure is logged at
  level Error, no exception leaves the processing of the record, and the percentage of
  the slot has been stored before the call. Nothing else depends on what the store
  answers: run over the same inputs with any other store behaviour, the supervisor
  accepts the same inputs, ends with the same client, at the same point of the loop and
  with the same reconnect delay, and has made the same store calls in the same order,
  in the same message and in all later ones.
\<close>

theorem store_failure_is_contained:
  "(ams_mappings self (py_str L (dict_get kv ''id'' (JStr []))) = Some spool \<and>
    py_float L (dict_get kv ''remain'' JNull) = Inr p \<and>
    \<not> no_significant_change (last_remaining self (py_str L (dict_get kv ''id'' (JStr [])))) p \<and>
    py_float L (dict_get kv ''tray_weight'' JNull) = Inr tw \<and>
    spool_update L db spool (fmul (fdiv_pos p 100) tw) = (False, db') \<longrightarrow>
    process_tray L self db (JObj kv) =
      (None,
       self\<lparr>last_remaining :=
              (last_remaining self)(py_str L (dict_get kv ''id'' (JStr [])) \<mapsto> p)\<rparr>,
       db',
       [Log Info (Slot_remaining (py_str L (dict_get kv ''id'' (JStr []))) spool p
                    (fmul (fdiv_pos p 100) tw)),
        Db_update (py_str L (dict_get kv ''id'' (JStr []))) spool (fmul (fdiv_pos p 100) tw),
        Log Error (Failed_update spool)])) \<and>
   (exec L s ins = Some (s1, e1) \<longrightarrow>
      (\<exists>s2 e2. exec (L\<lparr>spool_update := u\<rparr>) (s\<lparr>db_store := db2\<rparr>) ins = Some (s2, e2) \<and>
         this s2 = this s1 \<and> point s2 = point s1 \<and>
         reconnect_delay s2 = reconnect_delay s1 \<and> attempts e2 = attempts e1))"
proof -
  have a: "process_tray L self db (JObj kv) =
      (None,
       self\<lparr>last_remaining :=
              (last_remaining self)(py_str L (dict_get kv ''id'' (JStr [])) \<mapsto> p)\<rparr>,
       db',
       [Log Info (Slot_remaining (py_str L (dict_get kv ''id'' (JStr []))) spool p
                    (fmul (fdiv_pos p 100) tw)),
        Db_update (py_str L (dict_get kv ''id'' (JStr []))) spool (fmul (fdiv_pos p 100) tw),
        Log Error (Failed_update spool)])"
    if "ams_mappings self (py_str L (dict_get kv ''id'' (JStr []))) = Some spool"
      "py_float L (dict_get kv ''remain'' JNull) = Inr p"
      "\<not> no_significant_change (last_remaining self (py_str L (dict_get kv ''id'' (JStr [])))) p"
      "py_float L (dict_get kv ''tray_weight'' JNull) = Inr tw"
      "spool_update L db spool (fmul (fdiv_pos p 100) tw) = (False, db')"
  proof -
    have "dict_get kv ''remain'' JNull \<noteq> JNull" "dict_get kv ''tray_weight'' JNull \<noteq> JNull"
      using that(2,4) by (auto simp: py_float_JNull)
    then show ?thesis
      using that by (simp add: process_tray_def store_and_update_def Let_def)
  qed
  from a exec_indep [of L s ins s1 e1 u db2] show ?thesis by blast
qed

lemma exec_sample_fail_then_ok:
  "exec sample_lib sample_receiving [Message ''fail_then_ok'', Message ''one_tray''] =
     Some (sample_receiving
             \<lparr>this := (this sample_receiving)
                \<lparr>last_remaining := [''1'' \<mapsto> Finite 40, ''0'' \<mapsto> Finite 60]\<rparr>,
              db_store := [(7, Finite 600)]\<rparr>,
           [Open_session,
            Log Info (Slot_remaining ''1'' 13 (Finite 40) (Finite 400)),
            Db_update ''1'' 13 (Finite 400),
            Log Error (Failed_update 13),
            Log Info (Slot_remaining ''0'' 7 (Finite 60) (Finite 600)),
            Db_update ''0'' 7 (Finite 600),
            Log Info (Updated_spool 7 (Finite 600)),
            Open_session])"
  by (simp add: sample_receiving_def step_def sample_defs message_defs tray_defs)

theorem store_failure_is_contained_witness:
  "process_tray sample_lib sample_client [] tray_fail =
     (None, sample_client\<lparr>last_remaining := [''1'' \<mapsto> Finite 40]\<rparr>, [],
      [Log Info (Slot_remaining ''1'' 13 (Finite 40) (Finite 400)),
       Db_update ''1'' 13 (Finite 400),
       Log Error (Failed_update 13)]) \<and>
   (\<exists>s2 e2.
      exec (sample_lib\<lparr>spool_update := always_ok\<rparr>) (sample_receiving\<lparr>db_store := []\<rparr>)
        [Message ''fail_then_ok'', Message ''one_tray''] = Some (s2, e2) \<and>
      last_remaining (this s2) = [''1'' \<mapsto> Finite 40, ''0'' \<mapsto> Finite 60] \<and>
      point s2 = Receiving \<and> reconnect_delay s2 = 5 \<and>
      attempts e2 = [Db_update ''1'' 13 (Finite 400), Db_update ''0'' 7 (Finite 600)])"
proof -
  let ?kv = "[(''id'', JStr ''1''), (''remain'', JInt 40), (''tray_weight'', JInt 1000)]"
  have 1: "ams_mappings sample_client (py_str sample_lib (dict_get ?kv ''id'' (JStr []))) = Some 13"
    by (simp add: sample_defs dict_get_def py_str_def)
  have 2: "py_float sample_lib (dict_get ?kv ''remain'' JNull) = Inr (Finite 40)"
    by (simp add: dict_get_def py_float_def)
  have 3: "\<not> no_significant_change
      (last_remaining sample_client (py_str sample_lib (dict_get ?kv ''id'' (JStr []))))
      (Finite 40)"
    by (simp add: sample_defs dict_get_def py_str_def no_significant_change_def)
  have 4: "py_float sample_lib (dict_get ?kv ''tray_weight'' JNull) = Inr (Finite 1000)"
    by (simp add: dict_get_def py_float_def)
  have 5: "spool_update sample_lib [] 13 (fmul (fdiv_pos (Finite 40) 100) (Finite 1000)) =
      (False, [])"
    by (simp add: sample_lib_def)
  note t = store_failure_is_contained
    [where L = sample_lib and self = sample_client and db = "[]" and kv = ?kv and spool = 13
       and p = "Finite 40" and tw = "Finite 1000" and db' = "[]" and s = sample_receiving
       and ins = "[Message ''fail_then_ok'', Message ''one_tray'']" and u = always_ok
       and ?db2.0 = "[]"]
  note a = t [THEN conjunct1, THEN mp, OF conjI [OF 1 conjI [OF 2 conjI [OF 3 conjI [OF 4 5]]]]]
  note b = t [THEN conjunct2, THEN mp, OF exec_sample_fail_then_ok]
  from a have a': "process_tray sample_lib sample_client [] tray_fail =
     (None, sample_client\<lparr>last_remaining := [''1'' \<mapsto> Finite 40]\<rparr>, [],
      [Log Info (Slot_remaining ''1'' 13 (Finite 40) (Finite 400)),
       Db_update ''1'' 13 (Finite 400),
       Log Error (Failed_update 13)])"
    by (simp add: tray_fail_def dict_get_def py_str_def sample_client_def init_def)
  from b obtain s2 e2 where
    x: "exec (sample_lib\<lparr>spool_update := always_ok\<rparr>) (sample_receiving\<lparr>db_store := []\<rparr>)
          [Message ''fail_then_ok'', Message ''one_tray''] = Some (s2, e2)"
    and y: "this s2 = this (sample_receiving
             \<lparr>this := (this sample_receiving)
                \<lparr>last_remaining := [''1'' \<mapsto> Finite 40, ''0'' \<mapsto> Finite 60]\<rparr>,
              db_store := [(7, Finite 600)]\<rparr>)"
      "point s2 = point (sample_receiving
             \<lparr>this := (this sample_receiving)
                \<lparr>last_remaining := [''1'' \<mapsto> Finite 40, ''0'' \<mapsto> Finite 60]\<rparr>,
              db_store := [(7, Finite 600)]\<rparr>)"
      "reconnect_delay s2 = reconnect_delay (sample_receiving
             \<lparr>this := (this sample_receiving)
                \<lparr>last_remaining := [''1'' \<mapsto> Finite 40, ''0'' \<mapsto> Finite 60]\<rparr>,
              db_store := [(7, Finite 600)]\<rparr>)"
      "attempts e2 = attempts
           [Open_session,
            Log Info (Slot_remaining ''1'' 13 (Finite 40) (Finite 400)),
            Db_update ''1'' 13 (Finite 400),
            Log Error (Failed_update 13),
            Log Info (Slot_remaining ''0'' 7 (Finite 60) (Finite 600)),
            Db_update ''0'' 7 (Finite 600),
            Log Info (Updated_spool 7 (Finite 600)),
            Open_session]"
    by blast
  have z: "last_remaining (this s2) = [''1'' \<mapsto> Finite 40, ''0'' \<mapsto> Finite 60]"
    "point s2 = Receiving" "reconnect_delay s2 = 5"
    "attempts e2 = [Db_update ''1'' 13 (Finite 400), Db_update ''0'' 7 (Finite 600)]"
    using y by (simp_all add: attempts_def sample_receiving_def)
  from x z have b': "\<exists>s2 e2.
      exec (sample_lib\<lparr>spool_update := always_ok\<rparr>) (sample_receiving\<lparr>db_store := []\<rparr>)
        [Message ''fail_then_ok'', Message ''one_tray''] = Some (s2, e2) \<and>
      last_remaining (this s2) = [''1'' \<mapsto> Finite 40, ''0'' \<mapsto> Finite 60] \<and>
      point s2 = Receiving \<and> reconnect_delay s2 = 5 \<and>
      attempts e2 = [Db_update ''1'' 13 (Finite 400), Db_update ''0'' 7 (Finite 600)]"
    by blast
  from a' b' show ?thesis by blast
qed


section \<open>Replaying a message\<close>

lemma updates_for_Nil [simp]: "updates_for s [] = []"
  by (simp add: updates_for_def)

lemma updates_for_append [simp]: "updates_for s (a @ b) = updates_for s a @ updates_for s b"
  by (simp add: updates_for_def)

lemma updates_for_Log [simp]: "updates_for s (Log l m # evs) = updates_for s evs"
  by (simp add: updates_for_def)

lemma updates_for_empty_iff:
  "updates_for s evs = [] \<longleftrightarrow> (\<forall>spool w. Db_update s spool w \<notin> set evs)"
proof (induction evs)
  case Nil
  then show ?case by simp
next
  case (Cons e evs)
  then show ?case by (cases e) (auto simp: updates_for_def)
qed

text \<open>A record of another slot, or something that is no record, leaves slot \<open>s\<close> alone.\<close>

lemma process_tray_other_slot:
  assumes "\<not> is_slot_record L s t"
    and "process_tray L self db t = (r, self', db', evs)"
  shows "ams_mappings self' = ams_mappings self \<and>
         last_remaining self' s = last_remaining self s \<and> updates_for s evs = []"
  using assms
  by (cases t)
     (auto simp: process_tray_def Let_def updates_for_empty_iff
        split: option.splits if_splits sum.splits dest!: store_and_update_cases)

text \<open>A record that the filter does not let through changes nothing.\<close>

lemma process_tray_settled:
  assumes "is_slot_record L s t"
    and "settled_at L (ams_mappings self) (last_remaining self s) t"
    and "process_tray L self db t = (r, self', db', evs)"
  shows "self' = self \<and> updates_for s evs = []"
  using assms
  by (cases t)
     (auto simp: process_tray_def Let_def updates_for_empty_iff py_float_JNull
        split: option.splits if_splits sum.splits)

text \<open>Once processed, a record with a finite percentage is not let through again.\<close>

lemma no_significant_change_same: "no_significant_change (Some (Finite a)) (Finite a)"
  by (simp add: no_significant_change_def)

lemma store_and_update_count:
  "store_and_update L self db kv tid spool p = (r, self', db', evs) \<Longrightarrow>
   length (updates_for s evs) \<le> 1"
  by (auto simp: store_and_update_def Let_def updates_for_def
      split: if_splits sum.splits prod.splits bool.splits)

lemma process_tray_count:
  "process_tray L self db t = (r, self', db', evs) \<Longrightarrow> length (updates_for s evs) \<le> 1"
  by (cases t)
     (auto simp: process_tray_def Let_def split: option.splits if_splits sum.splits
        dest: store_and_update_count [where s = s])

lemma process_tray_settles:
  assumes "is_slot_record L s t"
    and "finite_percent L t"
    and "process_tray L self db t = (r, self', db', evs)"
  shows "ams_mappings self' = ams_mappings self \<and>
         settled_at L (ams_mappings self') (last_remaining self' s) t \<and>
         length (updates_for s evs) \<le> 1"
proof -
  have "ams_mappings self' = ams_mappings self \<and>
         settled_at L (ams_mappings self') (last_remaining self' s) t"
    using assms
    by (cases t)
       (auto simp: process_tray_def Let_def py_float_JNull no_significant_change_same
          split: option.splits if_splits sum.splits pyfloat.splits
          dest!: store_and_update_cases)
  with process_tray_count [OF assms(3), of s] show ?thesis by blast
qed

lemma visited_refl: "visited L s [] self self []"
  by (simp add: visited_def)

lemma visited_compose:
  assumes "visited L s r1 a b e1" and "visited L s r2 b c e2" and "length (r1 @ r2) \<le> 1"
  shows "visited L s (r1 @ r2) a c (e1 @ e2)"
proof (cases "r1 = []")
  case True
  with assms show ?thesis by (auto simp: visited_def)
next
  case False
  with assms(3) have "r2 = []" by (cases r1) auto
  with assms show ?thesis by (auto simp: visited_def)
qed

lemma process_tray_visited:
  assumes "is_slot_record L s t \<longrightarrow> finite_percent L t"
    and "process_tray L self db t = (r, self', db', evs)"
  shows "visited L s (filter (is_slot_record L s) [t]) self self' evs"
proof (cases "is_slot_record L s t")
  case True
  with assms have "finite_percent L t" by simp
  from process_tray_settles [OF True this assms(2)] True show ?thesis
    by (auto simp: visited_def)
next
  case False
  with process_tray_other_slot [OF False assms(2)] show ?thesis
    by (auto simp: visited_def)
qed

lemma process_trays_visited:
  assumes "length (filter (is_slot_record L s) ts) \<le> 1"
    and "\<forall>t \<in> set ts. is_slot_record L s t \<longrightarrow> finite_percent L t"
    and "process_trays L self db ts = (None, self', db', evs)"
  shows "visited L s (filter (is_slot_record L s) ts) self self' evs"
  using assms
proof (induction ts arbitrary: self db self' db' evs)
  case Nil
  then show ?case by (simp add: visited_refl)
next
  case (Cons t ts)
  obtain r1 s1 d1 e1 where t: "process_tray L self db t = (r1, s1, d1, e1)"
    by (cases "process_tray L self db t") auto
  obtain r2 s2 d2 e2 where ts: "process_trays L s1 d1 ts = (r2, s2, d2, e2)"
    by (cases "process_trays L s1 d1 ts") auto
  from Cons.prems(3) t ts have r: "r1 = None" "r2 = None" "self' = s2" "evs = e1 @ e2"
    by (auto split: option.splits)
  have v1: "visited L s (filter (is_slot_record L s) [t]) self s1 e1"
    using process_tray_visited [OF _ t] Cons.prems(2) by simp
  have len: "length (filter (is_slot_record L s) ts) \<le> 1"
    using Cons.prems(1) by (simp split: if_splits)
  have v2: "visited L s (filter (is_slot_record L s) ts) s1 s2 e2"
    using Cons.IH [OF len _ ts [unfolded r]] Cons.prems(2) by simp
  have "visited L s (filter (is_slot_record L s) [t] @ filter (is_slot_record L s) ts)
          self s2 (e1 @ e2)"
    using Cons.prems(1) by (intro visited_compose [OF v1 v2]) (simp split: if_splits)
  moreover have "filter (is_slot_record L s) [t] @ filter (is_slot_record L s) ts =
      filter (is_slot_record L s) (t # ts)"
    by simp
  ultimately have "visited L s (filter (is_slot_record L s) (t # ts)) self s2 (e1 @ e2)"
    by (simp only:)
  with r show ?case by (simp only:)
qed

lemma process_trays_replay:
  assumes "\<forall>t \<in> set ts. is_slot_record L s t \<longrightarrow>
             settled_at L (ams_mappings self) (last_remaining self s) t"
    and "process_trays L self db ts = (r, self', db', evs)"
  shows "ams_mappings self' = ams_mappings self \<and>
         last_remaining self' s = last_remaining self s \<and> updates_for s evs = []"
  using assms
proof (induction ts arbitrary: self db r self' db' evs)
  case Nil
  then show ?case by simp
next
  case (Cons t ts)
  obtain r1 s1 d1 e1 where t: "process_tray L self db t = (r1, s1, d1, e1)"
    by (cases "process_tray L self db t") auto
  have one: "ams_mappings s1 = ams_mappings self \<and>
         last_remaining s1 s = last_remaining self s \<and> updates_for s e1 = []"
  proof (cases "is_slot_record L s t")
    case True
    with Cons.prems(1) process_tray_settled [OF True _ t] show ?thesis by simp
  next
    case False
    from process_tray_other_slot [OF False t] show ?thesis .
  qed
  show ?case
  proof (cases r1)
    case None
    obtain r2 s2 d2 e2 where ts: "process_trays L s1 d1 ts = (r2, s2, d2, e2)"
      by (cases "process_trays L s1 d1 ts") auto
    have "ams_mappings s2 = ams_mappings s1 \<and>
         last_remaining s2 s = last_remaining s1 s \<and> updates_for s e2 = []"
      using Cons.IH [where self = s1, OF _ ts] Cons.prems(1) one by simp
    with Cons.prems(2) t None ts one show ?thesis by auto
  next
    case (Some e)
    with Cons.prems(2) t one show ?thesis by auto
  qed
qed

text \<open>Iterating over a string or over a dict yields strings, which are skipped.\<close>

lemma process_trays_no_dict:
  "\<forall>t \<in> set ts. \<forall>kv. t \<noteq> JObj kv \<Longrightarrow> process_trays L self db ts = (None, self, db, [])"
proof (induction ts)
  case Nil
  then show ?case by simp
next
  case (Cons t ts)
  then have "process_tray L self db t = (None, self, db, [])"
    by (cases t) (auto simp: process_tray_def)
  with Cons show ?case by simp
qed

lemma process_unit_trays:
  assumes "process_unit L self db u = (r, self', db', evs)"
  shows "(self' = self \<and> db' = db \<and> evs = [] \<and> trays_of_unit u = []) \<or>
         process_trays L self db (trays_of_unit u) = (r, self', db', evs)"
proof (cases u)
  case (JObj kv)
  show ?thesis
  proof (cases "map_of kv ''tray''")
    case None
    with assms JObj show ?thesis
      by (simp add: process_unit_def py_contains_def)
  next
    case (Some v)
    show ?thesis
    proof (cases v)
      case (JArr ts)
      with assms JObj Some show ?thesis
        by (simp add: process_unit_def py_contains_def py_getitem_def py_iter_def)
    next
      case (JStr str)
      have "process_trays L self db (map (\<lambda>c. JStr [c]) str) = (None, self, db, [])"
        by (rule process_trays_no_dict) auto
      with assms JObj Some JStr show ?thesis
        by (simp add: process_unit_def py_contains_def py_getitem_def py_iter_def)
    next
      case (JObj kv')
      have "process_trays L self db (map (\<lambda>p. JStr (fst p)) kv') = (None, self, db, [])"
        by (rule process_trays_no_dict) auto
      with assms \<open>u = JObj kv\<close> Some JObj show ?thesis
        by (simp add: process_unit_def py_contains_def py_getitem_def py_iter_def)
    qed (use assms JObj Some in
          \<open>simp_all add: process_unit_def py_contains_def py_getitem_def py_iter_def\<close>)
  qed
qed (use assms in \<open>auto simp: process_unit_def py_contains_def py_getitem_def
       split: if_splits bool.splits\<close>)

lemma process_unit_visited:
  assumes "length (filter (is_slot_record L s) (trays_of_unit u)) \<le> 1"
    and "\<forall>t \<in> set (trays_of_unit u). is_slot_record L s t \<longrightarrow> finite_percent L t"
    and "process_unit L self db u = (None, self', db', evs)"
  shows "visited L s (filter (is_slot_record L s) (trays_of_unit u)) self self' evs"
  using process_unit_trays [OF assms(3)] process_trays_visited [OF assms(1,2)]
  by (auto simp: visited_refl)

lemma process_unit_replay:
  assumes "\<forall>t \<in> set (trays_of_unit u). is_slot_record L s t \<longrightarrow>
             settled_at L (ams_mappings self) (last_remaining self s) t"
    and "process_unit L self db u = (r, self', db', evs)"
  shows "ams_mappings self' = ams_mappings self \<and>
         last_remaining self' s = last_remaining self s \<and> updates_for s evs = []"
  using process_unit_trays [OF assms(2)] process_trays_replay [OF assms(1)]
  by auto

lemma process_units_visited:
  assumes "length (filter (is_slot_record L s) (concat (map trays_of_unit us))) \<le> 1"
    and "\<forall>t \<in> set (concat (map trays_of_unit us)). is_slot_record L s t \<longrightarrow> finite_percent L t"
    and "process_units L self db us = (None, self', db', evs)"
  shows "visited L s (filter (is_slot_record L s) (concat (map trays_of_unit us))) self self' evs"
  using assms
proof (induction us arbitrary: self db self' db' evs)
  case Nil
  then show ?case by (simp add: visited_refl)
next
  case (Cons u us)
  obtain r1 s1 d1 e1 where u: "process_unit L self db u = (r1, s1, d1, e1)"
    by (cases "process_unit L self db u") auto
  obtain r2 s2 d2 e2 where us: "process_units L s1 d1 us = (r2, s2, d2, e2)"
    by (cases "process_units L s1 d1 us") auto
  from Cons.prems(3) u us have r: "r1 = None" "r2 = None" "self' = s2" "evs = e1 @ e2"
    by (auto split: option.splits)
  have len1: "length (filter (is_slot_record L s) (trays_of_unit u)) \<le> 1"
    and len2: "length (filter (is_slot_record L s) (concat (map trays_of_unit us))) \<le> 1"
    using Cons.prems(1) by simp_all
  have v1: "visited L s (filter (is_slot_record L s) (trays_of_unit u)) self s1 e1"
    using process_unit_visited [OF len1 _ u [unfolded r]] Cons.prems(2) by simp
  have v2: "visited L s (filter (is_slot_record L s) (concat (map trays_of_unit us))) s1 s2 e2"
    using Cons.IH [OF len2 _ us [unfolded r]] Cons.prems(2) by simp
  have "visited L s (filter (is_slot_record L s) (trays_of_unit u) @
                     filter (is_slot_record L s) (concat (map trays_of_unit us)))
          self s2 (e1 @ e2)"
    using Cons.prems(1) by (intro visited_compose [OF v1 v2]) simp
  with r show ?case by simp
qed

lemma process_units_replay:
  assumes "\<forall>t \<in> set (concat (map trays_of_unit us)). is_slot_record L s t \<longrightarrow>
             settled_at L (ams_mappings self) (last_remaining self s) t"
    and "process_units L self db us = (r, self', db', evs)"
  shows "ams_mappings self' = ams_mappings self \<and>
         last_remaining self' s = last_remaining self s \<and> updates_for s evs = []"
  using assms
proof (induction us arbitrary: self db r self' db' evs)
  case Nil
  then show ?case by simp
next
  case (Cons u us)
  obtain r1 s1 d1 e1 where u: "process_unit L self db u = (r1, s1, d1, e1)"
    by (cases "process_unit L self db u") auto
  have one: "ams_mappings s1 = ams_mappings self \<and>
         last_remaining s1 s = last_remaining self s \<and> updates_for s e1 = []"
    using process_unit_replay [where s = s, OF _ u] Cons.prems(1) by simp
  show ?case
  proof (cases r1)
    case None
    obtain r2 s2 d2 e2 where us: "process_units L s1 d1 us = (r2, s2, d2, e2)"
      by (cases "process_units L s1 d1 us") auto
    have "ams_mappings s2 = ams_mappings s1 \<and>
         last_remaining s2 s = last_remaining s1 s \<and> updates_for s e2 = []"
      using Cons.IH [where self = s1, OF _ us] Cons.prems(1) one by simp
    with Cons.prems(2) u None us one show ?thesis by auto
  next
    case (Some e)
    with Cons.prems(2) u one show ?thesis by auto
  qed
qed


lemma process_units_strings:
  assumes "\<forall>u \<in> set us. \<exists>k. u = JStr k"
    and "process_units L self db us = (r, self', db', evs)"
  shows "self' = self \<and> db' = db \<and> evs = []"
  using assms
proof (induction us arbitrary: r self' db' evs)
  case Nil
  then show ?case by simp
next
  case (Cons u us)
  then obtain k where k: "u = JStr k" by auto
  have "\<exists>r1. process_unit L self db u = (r1, self, db, [])"
    by (cases "is_substr ''tray'' k")
       (simp_all add: k process_unit_def py_contains_def py_getitem_def)
  then obtain r1 where u: "process_unit L self db u = (r1, self, db, [])" ..
  show ?case
  proof (cases r1)
    case None
    obtain r2 s2 d2 e2 where us: "process_units L self db us = (r2, s2, d2, e2)"
      by (cases "process_units L self db us") auto
    from Cons.IH [OF _ us] Cons.prems(1) have "s2 = self \<and> d2 = db \<and> e2 = []" by simp
    with Cons.prems(2) u None us show ?thesis by simp
  next
    case (Some e)
    with Cons.prems(2) u show ?thesis by simp
  qed
qed

lemma not_truthy_units_of: "\<not> py_truthy v \<Longrightarrow> units_of v = []"
  by (cases v) (simp_all add: py_truthy_def)

lemma process_ams_data_units:
  assumes "process_ams_data L self db a = (r, self', db', evs)"
  shows "(self' = self \<and> db' = db \<and> evs = [] \<and> units_of a = []) \<or>
         process_units L self db (units_of a) = (r, self', db', evs)"
proof (cases a)
  case (JArr us)
  with assms show ?thesis
    by (auto simp: process_ams_data_def py_truthy_def py_iter_def split: if_splits)
next
  case (JStr str)
  show ?thesis
  proof (cases "str = []")
    case True
    with assms JStr show ?thesis by (simp add: process_ams_data_def py_truthy_def)
  next
    case False
    with assms JStr have "process_units L self db (map (\<lambda>c. JStr [c]) str) = (r, self', db', evs)"
      by (simp add: process_ams_data_def py_truthy_def py_iter_def)
    from process_units_strings [OF _ this] JStr show ?thesis by auto
  qed
next
  case (JObj kv)
  show ?thesis
  proof (cases "kv = []")
    case True
    with assms JObj show ?thesis by (simp add: process_ams_data_def py_truthy_def)
  next
    case False
    with assms JObj have
      "process_units L self db (map (\<lambda>p. JStr (fst p)) kv) = (r, self', db', evs)"
      by (simp add: process_ams_data_def py_truthy_def py_iter_def)
    from process_units_strings [OF _ this] JObj show ?thesis by auto
  qed
qed (use assms in \<open>auto simp: process_ams_data_def py_truthy_def py_iter_def split: if_splits\<close>)

lemma walk_payload_shallow:
  assumes "\<not> (\<exists>kv pd a. payload = JObj kv \<and> map_of kv ''print'' = Some (JObj pd) \<and>
              dict_get pd ''ams'' (JObj []) = JObj a)"
  shows "ams_data_of payload = JArr [] \<and> snd (walk_payload L self db payload) = (self, db, [])"
proof (cases payload)
  case (JObj kv)
  show ?thesis
  proof (cases "map_of kv ''print''")
    case None
    with JObj show ?thesis
      by (simp add: ams_data_of_def walk_payload_def py_contains_def)
  next
    case (Some v)
    show ?thesis
    proof (cases "\<exists>pd. v = JObj pd")
      case True
      then obtain pd where pd: "v = JObj pd" ..
      with assms JObj Some have "\<forall>a. dict_get pd ''ams'' (JObj []) \<noteq> JObj a" by simp
      then show ?thesis
        using JObj Some pd
        by (cases "dict_get pd ''ams'' (JObj [])")
           (simp_all add: ams_data_of_def walk_payload_def py_contains_def py_getitem_def
              py_get_def)
    next
      case False
      then show ?thesis
        using JObj Some
        by (cases v)
           (simp_all add: ams_data_of_def walk_payload_def py_contains_def py_getitem_def
              py_get_def)
    qed
  qed
qed (simp_all add: ams_data_of_def walk_payload_def py_contains_def py_getitem_def
       split: bool.splits)

lemma walk_payload_units:
  assumes "walk_payload L self db payload = (r, self', db', evs)"
  shows "(self' = self \<and> db' = db \<and> evs = [] \<and> units_of (ams_data_of payload) = []) \<or>
         process_units L self db (units_of (ams_data_of payload)) = (r, self', db', evs)"
proof (cases "\<exists>kv pd a. payload = JObj kv \<and> map_of kv ''print'' = Some (JObj pd) \<and>
              dict_get pd ''ams'' (JObj []) = JObj a")
  case True
  then obtain kv pd a where deep: "payload = JObj kv" "map_of kv ''print'' = Some (JObj pd)"
      "dict_get pd ''ams'' (JObj []) = JObj a"
    by blast
  then have w: "walk_payload L self db payload =
        (if py_truthy (dict_get a ''ams'' (JArr []))
         then process_ams_data L self db (dict_get a ''ams'' (JArr []))
         else (None, self, db, []))"
    and d: "ams_data_of payload = dict_get a ''ams'' (JArr [])"
    by (simp_all add: walk_payload_def ams_data_of_def py_contains_def py_getitem_def
        py_get_def)
  show ?thesis
  proof (cases "py_truthy (dict_get a ''ams'' (JArr []))")
    case True
    with w assms have "process_ams_data L self db (ams_data_of payload) = (r, self', db', evs)"
      by (simp add: d)
    from process_ams_data_units [OF this] show ?thesis .
  next
    case False
    with w assms not_truthy_units_of [OF False] show ?thesis by (simp add: d)
  qed
next
  case False
  from walk_payload_shallow [OF False, of L self db] assms show ?thesis by simp
qed

text \<open>One pass over a payload, then a second pass over the same payload.\<close>

lemma walk_payload_replay:
  assumes first: "walk_payload L self db payload = (None, s1, d1, e1)"
    and len: "length (slot_records L s (ams_data_of payload)) \<le> 1"
    and fin: "\<forall>t \<in> set (slot_records L s (ams_data_of payload)). finite_percent L t"
    and again: "walk_payload L s1 dbx payload = (r2, s2, d2, e2)"
  shows "updates_for s e2 = [] \<and> last_remaining s2 s = last_remaining s1 s \<and>
         length (updates_for s e1) \<le> 1"
proof -
  let ?us = "units_of (ams_data_of payload)"
  let ?recs = "filter (is_slot_record L s) (concat (map trays_of_unit ?us))"
  have recs: "slot_records L s (ams_data_of payload) = ?recs"
    by (simp add: slot_records_def)
  have v: "visited L s ?recs self s1 e1"
  proof -
    from walk_payload_units [OF first]
    consider "s1 = self \<and> e1 = [] \<and> ?us = []"
      | "process_units L self db ?us = (None, s1, d1, e1)"
      by blast
    then show ?thesis
    proof cases
      case 1
      then show ?thesis by (simp add: visited_refl)
    next
      case 2
      show ?thesis
        by (rule process_units_visited [OF _ _ 2]) (use len fin recs in auto)
    qed
  qed
  have count: "length (updates_for s e1) \<le> 1"
    using v len recs by (simp add: visited_def)
  have settled: "\<forall>t \<in> set (concat (map trays_of_unit ?us)). is_slot_record L s t \<longrightarrow>
      settled_at L (ams_mappings s1) (last_remaining s1 s) t"
    using v by (auto simp: visited_def)
  from walk_payload_units [OF again]
  consider "s2 = s1 \<and> e2 = []" | "process_units L s1 dbx ?us = (r2, s2, d2, e2)"
    by blast
  then have "updates_for s e2 = [] \<and> last_remaining s2 s = last_remaining s1 s"
  proof cases
    case 1
    then show ?thesis by simp
  next
    case 2
    from process_units_replay [OF settled 2] show ?thesis by simp
  qed
  with count show ?thesis by simp
qed

text \<open>
  Claim C3, as the code has it. Whenever the percentage of a mapped slot passes the
  change filter, it is stored as the slot's baseline, whether or not the total weight of
  the record is present and numeric, and even when coercing the weight raises. If a
  message was processed without a processing error, holds at most one tray record of
  slot \<open>s\<close>, and the percentage of that record, if numeric, is finite, then processing the
  identical message again, whatever the store has become, makes no store call for \<open>s\<close>
  and leaves the baseline of \<open>s\<close> as it is; the two passes together make at most one call
  for \<open>s\<close>.
\<close>

theorem baseline_advances_and_replay_is_suppressed:
  "(ams_mappings self (py_str L (dict_get kv ''id'' (JStr []))) = Some spool \<and>
    py_float L (dict_get kv ''remain'' JNull) = Inr p \<and>
    \<not> no_significant_change (last_remaining self (py_str L (dict_get kv ''id'' (JStr [])))) p \<and>
    process_tray L self db (JObj kv) = (r, self', db', evs) \<longrightarrow>
    last_remaining self' (py_str L (dict_get kv ''id'' (JStr []))) = Some p) \<and>
   (process_message L self db message = (self1, db1, evs1) \<and>
    Log Error Processing_error \<notin> set evs1 \<and>
    length (message_records L s message) \<le> 1 \<and>
    (\<forall>t \<in> set (message_records L s message). finite_percent L t) \<and>
    process_message L self1 dbx message = (self2, db2, evs2) \<longrightarrow>
    updates_for s evs2 = [] \<and> last_remaining self2 s = last_remaining self1 s \<and>
    length (updates_for s (evs1 @ evs2)) \<le> 1)"
proof -
  have a: "last_remaining self' (py_str L (dict_get kv ''id'' (JStr []))) = Some p"
    if "ams_mappings self (py_str L (dict_get kv ''id'' (JStr []))) = Some spool"
      "py_float L (dict_get kv ''remain'' JNull) = Inr p"
      "\<not> no_significant_change (last_remaining self (py_str L (dict_get kv ''id'' (JStr [])))) p"
      "process_tray L self db (JObj kv) = (r, self', db', evs)"
    using that
    by (auto simp: process_tray_def Let_def py_float_JNull split: if_splits
        dest!: store_and_update_cases)
  have b: "updates_for s evs2 = [] \<and> last_remaining self2 s = last_remaining self1 s \<and>
      length (updates_for s (evs1 @ evs2)) \<le> 1"
    if first: "process_message L self db message = (self1, db1, evs1)"
      and ok: "Log Error Processing_error \<notin> set evs1"
      and len: "length (message_records L s message) \<le> 1"
      and fin: "\<forall>t \<in> set (message_records L s message). finite_percent L t"
      and again: "process_message L self1 dbx message = (self2, db2, evs2)"
  proof (cases "payload_decode L message")
    case (Inl e)
    with first ok show ?thesis by (auto simp: process_message_def)
  next
    case (Inr body)
    note dec = this
    show ?thesis
    proof (cases "json_loads L body")
      case (Inl e)
      with first again dec show ?thesis
        by (auto simp: process_message_def split: if_splits)
    next
      case (Inr payload)
      obtain r1 s1 d1 e1 where w1: "walk_payload L self db payload = (r1, s1, d1, e1)"
        by (cases "walk_payload L self db payload") auto
      with first ok dec Inr have r1: "r1 = None" "self1 = s1" "evs1 = e1"
        by (auto simp: process_message_def split: option.splits)
      obtain r2 s2 d2 e2 where w2: "walk_payload L s1 dbx payload = (r2, s2, d2, e2)"
        by (cases "walk_payload L s1 dbx payload") auto
      with again dec Inr r1 have r2: "self2 = s2" "updates_for s evs2 = updates_for s e2"
        by (auto simp: process_message_def split: option.splits)
      have recs: "message_records L s message = slot_records L s (ams_data_of payload)"
        using dec Inr by (simp add: message_records_def)
      from walk_payload_replay [OF w1 [unfolded r1] _ _ w2, of s] len fin recs r1 r2
      show ?thesis by simp
    qed
  qed
  from a b show ?thesis by blast
qed


lemma process_message_sample_one_tray:
  "process_message sample_lib sample_client [] ''one_tray'' =
     (sample_client\<lparr>last_remaining := [''0'' \<mapsto> Finite 60]\<rparr>, [(7, Finite 600)],
      [Log Info (Slot_remaining ''0'' 7 (Finite 60) (Finite 600)),
       Db_update ''0'' 7 (Finite 600),
       Log Info (Updated_spool 7 (Finite 600))])"
  by (simp add: sample_defs message_defs tray_defs)

lemma process_message_sample_one_tray_again:
  "process_message sample_lib (sample_client\<lparr>last_remaining := [''0'' \<mapsto> Finite 60]\<rparr>)
     [(7, Finite 600)] ''one_tray'' =
     (sample_client\<lparr>last_remaining := [''0'' \<mapsto> Finite 60]\<rparr>, [(7, Finite 600)], [])"
  by (simp add: sample_defs message_defs tray_defs)

lemma message_records_sample_one_tray:
  "message_records sample_lib ''0'' ''one_tray'' = [tray_60]"
  by (simp add: message_records_def slot_records_def ams_data_of_def sample_defs dict_get_def
      py_str_def str_int_def str_nat.simps)

theorem baseline_advances_and_replay_is_suppressed_witness:
  "last_remaining (sample_client\<lparr>last_remaining := [''0'' \<mapsto> Finite 60]\<rparr>) ''0'' =
     Some (Finite 60) \<and>
   message_records sample_lib ''0'' ''one_tray'' = [tray_60] \<and>
   finite_percent sample_lib tray_60 \<and>
   updates_for ''0'' [] = [] \<and>
   length (updates_for ''0''
     ([Log Info (Slot_remaining ''0'' 7 (Finite 60) (Finite 600)),
       Db_update ''0'' 7 (Finite 600),
       Log Info (Updated_spool 7 (Finite 600))] @ [])) \<le> 1"
proof -
  let ?kv = "[(''id'', JInt 0), (''remain'', JInt 60), (''tray_weight'', JInt 1000)]"
  let ?e1 = "[Log Info (Slot_remaining ''0'' 7 (Finite 60) (Finite 600)),
       Db_update ''0'' 7 (Finite 600),
       Log Info (Updated_spool 7 (Finite 600))]"
  have 1: "ams_mappings sample_client (py_str sample_lib (dict_get ?kv ''id'' (JStr []))) =
      Some 7"
    by (simp add: sample_defs dict_get_def py_str_def str_int_def str_nat.simps)
  have 2: "py_float sample_lib (dict_get ?kv ''remain'' JNull) = Inr (Finite 60)"
    by (simp add: dict_get_def py_float_def)
  have 3: "\<not> no_significant_change
      (last_remaining sample_client (py_str sample_lib (dict_get ?kv ''id'' (JStr []))))
      (Finite 60)"
    by (simp add: sample_defs no_significant_change_def)
  have 4: "process_tray sample_lib sample_client [] (JObj ?kv) =
      (None, sample_client\<lparr>last_remaining := [''0'' \<mapsto> Finite 60]\<rparr>, [(7, Finite 600)], ?e1)"
    using process_tray_sample_60 by (simp add: tray_60_def)
  have 5: "Log Error Processing_error \<notin> set ?e1"
    by simp
  have 6: "length (message_records sample_lib ''0'' ''one_tray'') \<le> 1"
    by (simp add: message_records_sample_one_tray)
  have 7: "\<forall>t \<in> set (message_records sample_lib ''0'' ''one_tray''). finite_percent sample_lib t"
    by (simp add: message_records_sample_one_tray tray_60_def dict_get_def py_float_def)
  note t = baseline_advances_and_replay_is_suppressed
    [where L = sample_lib and self = sample_client and db = "[]" and kv = ?kv and spool = 7
       and p = "Finite 60" and r = None
       and self' = "sample_client\<lparr>last_remaining := [''0'' \<mapsto> Finite 60]\<rparr>"
       and db' = "[(7, Finite 600)]" and evs = ?e1 and message = "''one_tray''"
       and ?self1.0 = "sample_client\<lparr>last_remaining := [''0'' \<mapsto> Finite 60]\<rparr>"
       and ?db1.0 = "[(7, Finite 600)]" and ?evs1.0 = ?e1 and s = "''0''"
       and dbx = "[(7, Finite 600)]"
       and ?self2.0 = "sample_client\<lparr>last_remaining := [''0'' \<mapsto> Finite 60]\<rparr>"
       and ?db2.0 = "[(7, Finite 600)]" and ?evs2.0 = "[]"]
  note a = t [THEN conjunct1, THEN mp, OF conjI [OF 1 conjI [OF 2 conjI [OF 3 4]]]]
  note b = t [THEN conjunct2, THEN mp,
      OF conjI [OF process_message_sample_one_tray
          conjI [OF 5 conjI [OF 6 conjI [OF 7 process_message_sample_one_tray_again]]]]]
  have a': "last_remaining (sample_client\<lparr>last_remaining := [''0'' \<mapsto> Finite 60]\<rparr>) ''0'' =
     Some (Finite 60)"
    using a by (simp add: dict_get_def py_str_def str_int_def str_nat.simps)
  have 8: "finite_percent sample_lib tray_60"
    using 7 by (simp add: message_records_sample_one_tray)
  from a' message_records_sample_one_tray 8 b show ?thesis by blast
qed

text \<open>
  Claim C3 as it is worded fails for a message that holds two records of one slot, as a
  printer with two AMS units sends, each unit numbering its trays from 0. The first pass
  dispatches 50 percent and then 60 percent for slot 0 and leaves 60 as the baseline; the
  replay of the identical message finds 50 against 60 and then 60 against 50, and
  dispatches both again.
\<close>

theorem replay_dispatches_again_counterexample:
  "process_message sample_lib sample_client [] ''two_units'' =
     (sample_client\<lparr>last_remaining := [''0'' \<mapsto> Finite 60]\<rparr>,
      [(7, Finite 500), (7, Finite 600)],
      [Log Info (Slot_remaining ''0'' 7 (Finite 50) (Finite 500)),
       Db_update ''0'' 7 (Finite 500),
       Log Info (Updated_spool 7 (Finite 500)),
       Log Info (Slot_remaining ''0'' 7 (Finite 60) (Finite 600)),
       Db_update ''0'' 7 (Finite 600),
       Log Info (Updated_spool 7 (Finite 600))]) \<and>
   process_message sample_lib (sample_client\<lparr>last_remaining := [''0'' \<mapsto> Finite 60]\<rparr>)
     [(7, Finite 500), (7, Finite 600)] ''two_units'' =
     (sample_client\<lparr>last_remaining := [''0'' \<mapsto> Finite 60]\<rparr>,
      [(7, Finite 500), (7, Finite 600), (7, Finite 500), (7, Finite 600)],
      [Log Info (Slot_remaining ''0'' 7 (Finite 50) (Finite 500)),
       Db_update ''0'' 7 (Finite 500),
       Log Info (Updated_spool 7 (Finite 500)),
       Log Info (Slot_remaining ''0'' 7 (Finite 60) (Finite 600)),
       Db_update ''0'' 7 (Finite 600),
       Log Info (Updated_spool 7 (Finite 600))])"
  by (simp add: sample_defs message_defs tray_defs)


section \<open>Backoff\<close>

lemma sleeps_append [simp]: "sleeps (a @ b) = sleeps a @ sleeps b"
  by (induction a rule: sleeps.induct) simp_all

lemma attempts_append [simp]: "attempts (a @ b) = attempts a @ attempts b"
  by (simp add: attempts_def)

lemma exec_append:
  "exec L s (xs @ ys) =
     (case exec L s xs of
        None \<Rightarrow> None
      | Some (s', e) \<Rightarrow>
          (case exec L s' ys of None \<Rightarrow> None | Some (s'', e') \<Rightarrow> Some (s'', e @ e')))"
  by (induction xs arbitrary: s) (auto split: option.splits)

text \<open>One failed connection attempt and the sleep after it.\<close>

lemma one_failed_attempt:
  assumes "point s = Connecting" and "running (this s)"
  shows "exec L s [Connect_fails k, Wake] =
     Some (s\<lparr>reconnect_delay := min (reconnect_delay s * 2) 300\<rparr>,
           [Log Error (case k of MqttError \<Rightarrow> Connection_error | Unexpected \<Rightarrow> Unexpected_error),
            Log Info (Reconnecting (reconnect_delay s)),
            Sleep (reconnect_delay s),
            Open_client])"
  using assms
  by (cases s) (simp add: step_def on_error_def loop_top_def max_reconnect_delay_def)

lemma min_double:
  assumes "0 \<le> d"
  shows "min (min (d * 2) 300 * 2 ^ i) 300 = min (d * 2 ^ Suc i) (300::int)"
proof (cases "d * 2 \<le> 300")
  case True
  then show ?thesis by (simp add: mult.assoc)
next
  case False
  have one: "(1::int) \<le> 2 ^ i" by simp
  have big2: "(300::int) \<le> 300 * 2 ^ i"
    using mult_left_mono [OF one, of 300] by simp
  have le: "d * 2 \<le> d * 2 * 2 ^ i"
    using mult_left_mono [OF one, of "d * 2"] assms by simp
  have eq: "d * 2 ^ Suc i = d * 2 * 2 ^ i"
    by (simp add: mult.assoc)
  from False have "300 < d * 2" by simp
  with le have "300 < d * 2 * 2 ^ i" by linarith
  with eq have big: "300 < d * 2 ^ Suc i" by (simp only:)
  from False have "min (d * 2) 300 = 300" by simp
  then have "min (min (d * 2) 300 * 2 ^ i) 300 = 300"
    using big2 by simp
  moreover have "min (d * 2 ^ Suc i) 300 = 300"
    using big by (simp only: min_def) simp
  ultimately show ?thesis by (simp only:)
qed

lemma failed_attempts_sleeps:
  assumes "point s = Connecting" and "running (this s)"
    and "0 \<le> reconnect_delay s" and "reconnect_delay s \<le> 300"
  shows "\<exists>evs. exec L s (failed_attempts n k) =
             Some (s\<lparr>reconnect_delay := min (reconnect_delay s * 2 ^ n) 300\<rparr>, evs) \<and>
           sleeps evs = map (\<lambda>i. min (reconnect_delay s * 2 ^ i) 300) [0..<n]"
  using assms
proof (induction n arbitrary: s)
  case 0
  then show ?case by (cases s) (simp add: failed_attempts_def)
next
  case (Suc n)
  let ?d = "reconnect_delay s"
  let ?s1 = "s\<lparr>reconnect_delay := min (?d * 2) 300\<rparr>"
  have split: "failed_attempts (Suc n) k = [Connect_fails k, Wake] @ failed_attempts n k"
    by (simp add: failed_attempts_def)
  note first = one_failed_attempt [OF Suc.prems(1,2), of L k]
  have "point ?s1 = Connecting" "running (this ?s1)" "0 \<le> reconnect_delay ?s1"
    "reconnect_delay ?s1 \<le> 300"
    using Suc.prems by simp_all
  from Suc.IH [OF this] obtain evs where
    rest: "exec L ?s1 (failed_attempts n k) =
             Some (?s1\<lparr>reconnect_delay := min (reconnect_delay ?s1 * 2 ^ n) 300\<rparr>, evs)"
    and sl: "sleeps evs = map (\<lambda>i. min (reconnect_delay ?s1 * 2 ^ i) 300) [0..<n]"
    by blast
  have d: "min (min (?d * 2) 300 * 2 ^ i) 300 = min (?d * 2 ^ Suc i) 300" for i
    using Suc.prems(3) by (rule min_double)
  have "exec L s (failed_attempts (Suc n) k) =
      Some (s\<lparr>reconnect_delay := min (?d * 2 ^ Suc n) 300\<rparr>,
            [Log Error (case k of MqttError \<Rightarrow> Connection_error
                        | Unexpected \<Rightarrow> Unexpected_error),
             Log Info (Reconnecting ?d), Sleep ?d, Open_client] @ evs)"
    unfolding split exec_append first using rest d by simp
  moreover have "sleeps ([Log Error (case k of MqttError \<Rightarrow> Connection_error
                        | Unexpected \<Rightarrow> Unexpected_error),
             Log Info (Reconnecting ?d), Sleep ?d, Open_client] @ evs) =
      map (\<lambda>i. min (?d * 2 ^ i) 300) [0..<Suc n]"
    using sl d Suc.prems(4) by (simp add: map_upt_Suc del: upt_Suc)
  ultimately show ?case by blast
qed

lemma run_start:
  "run self db =
     (\<lparr>this = self\<lparr>running := True\<rparr>, db_store = db, reconnect_delay = 5, point = Connecting\<rparr>,
      [Open_client])"
  by (simp add: run_def loop_top_def)

text \<open>While the client is subscribing or receiving, the delay is 5.\<close>

lemma step_delay_reset:
  assumes "step L s i = Some (s', evs)"
    and "point s = Subscribing \<or> point s = Receiving \<longrightarrow> reconnect_delay s = 5"
  shows "point s' = Subscribing \<or> point s' = Receiving \<longrightarrow> reconnect_delay s' = 5"
  using assms
  by (cases i)
     (auto simp: step_def loop_top_def on_error_def stop_def
        split: if_splits prod.splits)

lemma exec_delay_reset:
  assumes "exec L s ins = Some (s', evs)"
    and "point s = Subscribing \<or> point s = Receiving \<longrightarrow> reconnect_delay s = 5"
  shows "point s' = Subscribing \<or> point s' = Receiving \<longrightarrow> reconnect_delay s' = 5"
  using assms
proof (induction ins arbitrary: s evs)
  case Nil
  then show ?case by simp
next
  case (Cons i ins)
  from Cons.prems(1) obtain s1 e1 e2 where
    a: "step L s i = Some (s1, e1)" and b: "exec L s1 ins = Some (s', e2)"
    by (auto split: option.splits)
  from Cons.IH [OF b step_delay_reset [OF a Cons.prems(2)]] show ?case .
qed


lemma connect_then_subscribe_fails:
  assumes "point s = Connecting" and "running (this s)"
  shows "exec L s [Connect_ok, Subscribe_fails k, Wake] =
     Some (s\<lparr>this := (this s)\<lparr>client := True\<rparr>, reconnect_delay := 10\<rparr>,
           [Log Info Connected,
            Log Error (case k of MqttError \<Rightarrow> Connection_error | Unexpected \<Rightarrow> Unexpected_error),
            Log Info (Reconnecting 5),
            Sleep 5,
            Open_client])"
  using assms
  by (cases s) (simp add: step_def on_error_def loop_top_def max_reconnect_delay_def)

text \<open>
  Claim C4, as the code has it. The delay starts at 5. Each failed connection attempt
  sleeps for the current delay and then doubles it, up to 300, so \<open>n\<close> failed attempts in
  a row from the start sleep for 5, 10, 20, 40, ... capped at 300. The delay is set back
  to 5 when the connection is established, before the subscribe request is issued: it is
  therefore 5 whenever the client is subscribing or subscribed, and when the subscribe
  request fails after a successful connection the sleep is 5 and the next delay 10,
  whatever the delay was before.
\<close>

theorem backoff_doubles_and_resets_on_connect:
  "reconnect_delay (fst (run self db)) = 5 \<and>
   point (fst (run self db)) = Connecting \<and>
   sleeps (trace_of (exec L (fst (run self db)) (failed_attempts n k))) =
     map (\<lambda>i. min (5 * 2 ^ i) 300) [0..<n] \<and>
   sleeps (trace_of (exec L (fst (run self db)) (failed_attempts 4 k))) = [5, 10, 20, 40] \<and>
   (point s = Connecting \<longrightarrow>
      step L s Connect_ok =
        Some (s\<lparr>this := (this s)\<lparr>client := True\<rparr>, reconnect_delay := 5,
                point := Subscribing\<rparr>,
              [Log Info Connected])) \<and>
   (exec L (fst (run self db)) ins = Some (s', evs) \<and>
      (point s' = Subscribing \<or> point s' = Receiving) \<longrightarrow>
      reconnect_delay s' = 5) \<and>
   (point s = Connecting \<and> running (this s) \<longrightarrow>
      exec L s [Connect_ok, Subscribe_fails k, Wake] =
        Some (s\<lparr>this := (this s)\<lparr>client := True\<rparr>, reconnect_delay := 10\<rparr>,
              [Log Info Connected,
               Log Error (case k of MqttError \<Rightarrow> Connection_error
                          | Unexpected \<Rightarrow> Unexpected_error),
               Log Info (Reconnecting 5),
               Sleep 5,
               Open_client]))"
proof -
  let ?s0 = "fst (run self db)"
  have s0: "point ?s0 = Connecting" "running (this ?s0)" "reconnect_delay ?s0 = 5"
    by (simp_all add: run_start)
  have sl: "sleeps (trace_of (exec L ?s0 (failed_attempts m k))) =
      map (\<lambda>i. min (5 * 2 ^ i) 300) [0..<m]" for m
  proof -
    from failed_attempts_sleeps [OF s0(1,2), of L m k] s0(3)
    obtain e where "exec L ?s0 (failed_attempts m k) =
        Some (?s0\<lparr>reconnect_delay := min (reconnect_delay ?s0 * 2 ^ m) 300\<rparr>, e)"
      and "sleeps e = map (\<lambda>i. min (reconnect_delay ?s0 * 2 ^ i) 300) [0..<m]"
      by auto
    with s0(3) show ?thesis by (simp add: trace_of_def)
  qed
  have four: "map (\<lambda>i. min (5 * 2 ^ i) (300::int)) [0..<4] = [5, 10, 20, 40]"
    by (simp add: upt_rec)
  have reset: "step L s Connect_ok =
        Some (s\<lparr>this := (this s)\<lparr>client := True\<rparr>, reconnect_delay := 5,
                point := Subscribing\<rparr>,
              [Log Info Connected])"
    if "point s = Connecting"
    using that by (simp add: step_def)
  have inv: "reconnect_delay s' = 5"
    if "exec L ?s0 ins = Some (s', evs)" "point s' = Subscribing \<or> point s' = Receiving"
    using exec_delay_reset [OF that(1)] s0(1) that(2) by simp
  from s0 sl [of n] sl [of 4] four reset inv connect_then_subscribe_fails [of s L k]
  show ?thesis by (simp only:) blast
qed

lemma sample_started_eq:
  "sample_started =
     \<lparr>this = sample_client\<lparr>running := True\<rparr>, db_store = [], reconnect_delay = 5,
      point = Connecting\<rparr>"
  by (simp add: sample_started_def run_start)

lemma exec_sample_fail_connect_subscribe:
  "exec sample_lib (fst (run sample_client []))
     [Connect_fails MqttError, Wake, Connect_ok, Subscribe_ok] =
   Some (sample_receiving,
         [Log Error Connection_error, Log Info (Reconnecting 5), Sleep 5, Open_client,
          Log Info Connected, Log Info Subscribed])"
  by (simp add: run_start step_def on_error_def loop_top_def max_reconnect_delay_def
      sample_client_def init_def sample_receiving_def)

theorem backoff_doubles_and_resets_on_connect_witness:
  "reconnect_delay sample_started = 5 \<and>
   sleeps (trace_of (exec sample_lib sample_started (failed_attempts 4 MqttError))) =
     [5, 10, 20, 40] \<and>
   step sample_lib sample_started Connect_ok =
     Some (sample_started
             \<lparr>this := (this sample_started)\<lparr>client := True\<rparr>,
              reconnect_delay := 5, point := Subscribing\<rparr>,
           [Log Info Connected]) \<and>
   reconnect_delay sample_receiving = 5 \<and>
   exec sample_lib sample_started [Connect_ok, Subscribe_fails MqttError, Wake] =
     Some (sample_started
             \<lparr>this := (this sample_started)\<lparr>client := True\<rparr>, reconnect_delay := 10\<rparr>,
           [Log Info Connected, Log Error Connection_error, Log Info (Reconnecting 5),
            Sleep 5, Open_client])"
proof -
  have 1: "point sample_started = Connecting"
    by (simp add: sample_started_eq)
  have 2: "running (this sample_started)"
    by (simp add: sample_started_eq)
  have 3: "point sample_receiving = Subscribing \<or> point sample_receiving = Receiving"
    by (simp add: sample_receiving_def)
  note t = backoff_doubles_and_resets_on_connect
    [where L = sample_lib and self = sample_client and db = "[] :: (int \<times> pyfloat) list"
       and k = MqttError and s = sample_started
       and ins = "[Connect_fails MqttError, Wake, Connect_ok, Subscribe_ok]"
       and s' = sample_receiving
       and evs = "[Log Error Connection_error, Log Info (Reconnecting 5), Sleep 5, Open_client,
          Log Info Connected, Log Info Subscribed]", folded sample_started_def]
  from t have a: "reconnect_delay sample_started = 5" by (rule conjunct1)
  from t have b: "sleeps (trace_of (exec sample_lib sample_started (failed_attempts 4 MqttError))) =
     [5, 10, 20, 40]" by blast
  from t 1 have c: "step sample_lib sample_started Connect_ok =
     Some (sample_started\<lparr>this := (this sample_started)\<lparr>client := True\<rparr>,
              reconnect_delay := 5, point := Subscribing\<rparr>,
           [Log Info Connected])" by blast
  from t exec_sample_fail_connect_subscribe [folded sample_started_def] 3
  have d: "reconnect_delay sample_receiving = 5"
    by blast
  from t 1 2 have e: "exec sample_lib sample_started
       [Connect_ok, Subscribe_fails MqttError, Wake] =
     Some (sample_started\<lparr>this := (this sample_started)\<lparr>client := True\<rparr>,
              reconnect_delay := 10\<rparr>,
           [Log Info Connected, Log Error Connection_error, Log Info (Reconnecting 5),
            Sleep 5, Open_client])"
    by (simp only: failure.case)
  show ?thesis by (intro conjI a b c d e)
qed

text \<open>
  Claim C4 as it is worded fails: the delay is reset without any successful subscribe.
  Three connection attempts fail, the fourth connects but its subscribe request fails,
  the fifth fails to connect. The client never subscribed, yet the sleeps are 5, 10, 20,
  5, 10 and not 5, 10, 20, 40, 80.
\<close>

theorem reset_without_subscribe_counterexample:
  "sleeps (trace_of (exec sample_lib sample_started
      [Connect_fails MqttError, Wake, Connect_fails MqttError, Wake,
       Connect_fails MqttError, Wake,
       Connect_ok, Subscribe_fails MqttError, Wake,
       Connect_fails MqttError, Wake])) = [5, 10, 20, 5, 10] \<and>
   Log Info Subscribed \<notin> set (trace_of (exec sample_lib sample_started
      [Connect_fails MqttError, Wake, Connect_fails MqttError, Wake,
       Connect_fails MqttError, Wake,
       Connect_ok, Subscribe_fails MqttError, Wake,
       Connect_fails MqttError, Wake]))"
  by (simp add: sample_started_eq step_def on_error_def loop_top_def max_reconnect_delay_def
      trace_of_def)

section \<open>Stopping\<close>







end
